theory Spec2Isabelle
  imports Complex_Main "HOL-Library.Sublist"
begin

section \<open>JavaScript values\<close>

text \<open>
  A JavaScript string is a sequence of UTF-16 code units; a code unit is carried as a
  natural number. \<open>S\<close> turns an ASCII literal of the source into such a string.
\<close>

type_synonym jsstring = "nat list"

abbreviation S :: "string \<Rightarrow> jsstring" where
  "S s \<equiv> map of_char s"

text \<open>
  Numbers are only ever tested (\<open>typeof\<close>, \<open>Number.isNaN\<close>, truthiness) and passed on,
  never computed with, so a number other than NaN and the infinities is carried as the
  rational it denotes.
\<close>

datatype jsnum = JNaN | JInfinity bool | JFinite rat

datatype jv =
    JUndefined
  | JNull
  | JBool bool
  | JNum jsnum
  | JStr jsstring
  | JArr "jv list"
  | JObj "(jsstring \<times> jv) list"

text \<open>The exceptions the code can meet, one constructor for each place that throws.\<close>

datatype exn =
    TypeError
  | URIError
  | FetchFailed
  | JsonFailed
  | LibreHttp nat
  | LibreNoResult
  | MyMemoryHttp nat
  | MyMemoryNoResult
  | DictHttp nat
  | DictBadFormat

text \<open>\<open>ToBoolean\<close>: what \<open>if (v)\<close>, \<open>!v\<close>, \<open>a || b\<close> and \<open>a && b\<close> test.\<close>

fun truthy :: "jv \<Rightarrow> bool" where
  "truthy JUndefined = False"
| "truthy JNull = False"
| "truthy (JBool b) = b"
| "truthy (JNum n) = (n \<noteq> JNaN \<and> n \<noteq> JFinite 0)"
| "truthy (JStr s) = (s \<noteq> [])"
| "truthy (JArr xs) = True"
| "truthy (JObj kvs) = True"

definition js_or :: "jv \<Rightarrow> jv \<Rightarrow> jv" where
  "js_or a b = (if truthy a then a else b)"

fun nullish :: "jv \<Rightarrow> bool" where
  "nullish JUndefined = True"
| "nullish JNull = True"
| "nullish v = False"

fun is_string :: "jv \<Rightarrow> bool" where
  "is_string (JStr s) = True"
| "is_string v = False"

text \<open>
  \<open>opt_prop v k\<close> is \<open>v?.k\<close>, and \<open>get_prop v k\<close> is \<open>v.k\<close>, which throws a TypeError on
  \<open>undefined\<close> and \<open>null\<close>. The code reads only property names that no built-in
  prototype defines (\<open>type\<close>, \<open>text\<close>, \<open>settings\<close>, \<open>translatedText\<close>, ...), so on a
  string, number, boolean or array the read gives \<open>undefined\<close>.
\<close>

fun opt_prop :: "jv \<Rightarrow> jsstring \<Rightarrow> jv" where
  "opt_prop (JObj kvs) k = (case map_of kvs k of Some v \<Rightarrow> v | None \<Rightarrow> JUndefined)"
| "opt_prop v k = JUndefined"

definition get_prop :: "jv \<Rightarrow> jsstring \<Rightarrow> exn + jv" where
  "get_prop v k = (if nullish v then Inl TypeError else Inr (opt_prop v k))"

text \<open>
  \<open>String.prototype.trim\<close> removes the code units of WhiteSpace and LineTerminator from
  both ends; the regular expression class \<open>\s\<close> is the same set.
\<close>

definition isWhiteSpace :: "nat \<Rightarrow> bool" where
  "isWhiteSpace c \<longleftrightarrow>
     c = 0x09 \<or> c = 0x0A \<or> c = 0x0B \<or> c = 0x0C \<or> c = 0x0D \<or> c = 0x20 \<or> c = 0xA0 \<or>
     c = 0x1680 \<or> (0x2000 \<le> c \<and> c \<le> 0x200A) \<or> c = 0x2028 \<or> c = 0x2029 \<or>
     c = 0x202F \<or> c = 0x205F \<or> c = 0x3000 \<or> c = 0xFEFF"

definition trim :: "jsstring \<Rightarrow> jsstring" where
  "trim s = rev (dropWhile isWhiteSpace (rev (dropWhile isWhiteSpace s)))"

section \<open>The host: what the browser and the network supply\<close>

text \<open>
  The three \<open>fetch\<close> call sites, with the part of the request that varies:
  \<^item> \<open>LibreReq text\<close>: POST https://libretranslate.de/translate with the JSON body
    \<open>{q: text, source: "en", target: "zh", format: "text"}\<close>;
  \<^item> \<open>MyMemoryReq q\<close>: GET https://api.mymemory.translated.net/get?q=\<open>q\<close>&langpair=en|zh-CN;
  \<^item> \<open>DictReq w\<close>: GET https://api.dictionaryapi.dev/api/v2/entries/en/\<open>w\<close>.
\<close>

datatype request = LibreReq jv | MyMemoryReq jsstring | DictReq jsstring

text \<open>
  A response has its HTTP status and the value \<open>response.json()\<close> resolves to
  (\<open>None\<close> when the body is not JSON and the promise rejects).
\<close>

record response =
  status :: nat
  body :: "jv option"

definition ok :: "response \<Rightarrow> bool" where
  "ok r \<longleftrightarrow> 200 \<le> status r \<and> status r \<le> 299"

datatype fetch_outcome = FetchRejected | FetchResponse response

text \<open>
  The host functions are parameters of the model. \<open>fetch h n req\<close> is what the network
  answers to \<open>req\<close> when \<open>n\<close> requests were issued before it, so the same request may be
  answered differently at different times. Every \<open>fetch\<close> is taken to settle.
  \<open>ToString h\<close> converts a value that is not a string (\<open>None\<close> when the conversion throws),
  and \<open>encodeURIComponent h\<close> is \<open>None\<close> where it throws a URIError.
\<close>

record host =
  toLowerCase :: "jsstring \<Rightarrow> jsstring"
  encodeURIComponent :: "jsstring \<Rightarrow> jsstring option"
  ToString :: "jv \<Rightarrow> jsstring option"
  fetch :: "nat \<Rightarrow> request \<Rightarrow> fetch_outcome"

definition js_ToString :: "host \<Rightarrow> jv \<Rightarrow> jsstring option" where
  "js_ToString h v = (case v of JStr s \<Rightarrow> Some s | _ \<Rightarrow> ToString h v)"

text \<open>What \<open>chrome.storage.sync.get("settings", callback)\<close> does.\<close>

datatype storage_outcome =
    StorageThrows
  | StorageLastError
  | StorageItems "(jsstring \<times> jv) list"

section \<open>background.js: settings\<close>

record settings =
  provider :: jv
  theme :: jv
  ttsRate :: jsnum
  ttsVoice :: jv
  showPronounce :: bool

definition DEFAULT_SETTINGS :: settings where
  "DEFAULT_SETTINGS =
     \<lparr>provider = JStr (S ''auto''), theme = JStr (S ''auto''), ttsRate = JFinite 1,
      ttsVoice = JStr (S ''auto''), showPronounce = True\<rparr>"

text \<open>
  The body of the storage callback once \<open>chrome.runtime.lastError\<close> is found unset.
  Its property reads are the throwing ones: an exception here is not caught by the
  \<open>try\<close> around \<open>chrome.storage.sync.get\<close>, and would leave the promise pending.
\<close>

definition read_settings :: "(jsstring \<times> jv) list \<Rightarrow> exn + settings" where
  "read_settings items =
     (case get_prop (JObj items) (S ''settings'') of
        Inl e \<Rightarrow> Inl e
      | Inr v \<Rightarrow>
          let stored = js_or v (JObj []) in
          (case get_prop stored (S ''provider'') of Inl e \<Rightarrow> Inl e | Inr p \<Rightarrow>
          (case get_prop stored (S ''theme'') of Inl e \<Rightarrow> Inl e | Inr t \<Rightarrow>
          (case get_prop stored (S ''ttsRate'') of Inl e \<Rightarrow> Inl e | Inr r \<Rightarrow>
          (case get_prop stored (S ''ttsVoice'') of Inl e \<Rightarrow> Inl e | Inr vo \<Rightarrow>
          (case get_prop stored (S ''showPronounce'') of Inl e \<Rightarrow> Inl e | Inr sp \<Rightarrow>
             Inr \<lparr>provider = js_or p (provider DEFAULT_SETTINGS),
                  theme = js_or t (theme DEFAULT_SETTINGS),
                  ttsRate = (case r of
                               JNum n \<Rightarrow> if n \<noteq> JNaN then n else ttsRate DEFAULT_SETTINGS
                             | _ \<Rightarrow> ttsRate DEFAULT_SETTINGS),
                  ttsVoice = js_or vo (ttsVoice DEFAULT_SETTINGS),
                  showPronounce = (case sp of
                                     JBool b \<Rightarrow> b
                                   | _ \<Rightarrow> showPronounce DEFAULT_SETTINGS)\<rparr>))))))"

text \<open>
  \<open>getUserSettings\<close> returns a promise: \<open>Some st\<close> when it resolves with \<open>st\<close>, \<open>None\<close> when
  it stays pending. The code never rejects it.
\<close>

definition getUserSettings :: "storage_outcome \<Rightarrow> settings option" where
  "getUserSettings out =
     (case out of
        StorageThrows \<Rightarrow> Some DEFAULT_SETTINGS
      | StorageLastError \<Rightarrow> Some DEFAULT_SETTINGS
      | StorageItems items \<Rightarrow>
          (case read_settings items of Inl e \<Rightarrow> None | Inr st \<Rightarrow> Some st))"

definition getProvidersOrder :: "jv \<Rightarrow> jsstring list" where
  "getProvidersOrder providerSetting =
     (if providerSetting = JStr (S ''libre'') then [S ''libre'']
      else if providerSetting = JStr (S ''mymemory'') then [S ''mymemory'']
      else if providerSetting = JStr (S ''auto'') then [S ''libre'', S ''mymemory'']
      else [S ''libre'', S ''mymemory''])"

section \<open>background.js: caches and providers\<close>

record tresult =
  tr_translation :: jv
  tr_provider :: jsstring

record dentry =
  ipa :: "jsstring option"
  audio :: "jsstring option"

text \<open>
  The state of the service worker: the two \<open>Map\<close>s, and (for the claims about network
  calls) the list of every request handed to \<open>fetch\<close> so far, oldest first.
\<close>

record bg_state =
  translationCache :: "jsstring \<rightharpoonup> tresult"
  dictCache :: "jsstring \<rightharpoonup> dentry"
  calls :: "request list"

definition do_fetch :: "host \<Rightarrow> request \<Rightarrow> bg_state \<Rightarrow> bg_state \<times> fetch_outcome" where
  "do_fetch h req s = (s\<lparr>calls := calls s @ [req]\<rparr>, fetch h (length (calls s)) req)"

text \<open>What \<open>translateWithLibre\<close> does with the response of its \<open>fetch\<close>.\<close>

definition libre_result :: "fetch_outcome \<Rightarrow> exn + tresult" where
  "libre_result out =
     (case out of
        FetchRejected \<Rightarrow> Inl FetchFailed
      | FetchResponse r \<Rightarrow>
          if \<not> ok r then Inl (LibreHttp (status r))
          else (case body r of
                  None \<Rightarrow> Inl JsonFailed
                | Some data \<Rightarrow>
                    (case get_prop data (S ''translatedText'') of Inl e \<Rightarrow> Inl e | Inr a \<Rightarrow>
                    (case get_prop data (S ''translation'') of Inl e \<Rightarrow> Inl e | Inr b \<Rightarrow>
                    (case get_prop data (S ''translated_text'') of Inl e \<Rightarrow> Inl e | Inr c \<Rightarrow>
                       let translated = js_or (js_or a b) c in
                       if \<not> truthy translated then Inl LibreNoResult
                       else Inr \<lparr>tr_translation = translated,
                                 tr_provider = S ''LibreTranslate''\<rparr>)))))"

definition translateWithLibre :: "host \<Rightarrow> jv \<Rightarrow> bg_state \<Rightarrow> bg_state \<times> (exn + tresult)" where
  "translateWithLibre h text s =
     (let (s', out) = do_fetch h (LibreReq text) s in (s', libre_result out))"

text \<open>
  \<open>data?.responseData?.translatedText || (Array.isArray(data?.matches) &&
  data.matches.length > 0 ? data.matches[0].translation : "")\<close>, then the test
  \<open>!translated\<close>.
\<close>

definition mymemory_result :: "fetch_outcome \<Rightarrow> exn + tresult" where
  "mymemory_result out =
     (case out of
        FetchRejected \<Rightarrow> Inl FetchFailed
      | FetchResponse r \<Rightarrow>
          if \<not> ok r then Inl (MyMemoryHttp (status r))
          else (case body r of
                  None \<Rightarrow> Inl JsonFailed
                | Some data \<Rightarrow>
                    let primary = opt_prop (opt_prop data (S ''responseData'')) (S ''translatedText'') in
                    (case (if truthy primary then Inr primary
                           else (case opt_prop data (S ''matches'') of
                                   JArr (m # ms) \<Rightarrow> get_prop m (S ''translation'')
                                 | _ \<Rightarrow> Inr (JStr []))) of
                       Inl e \<Rightarrow> Inl e
                     | Inr translated \<Rightarrow>
                         if \<not> truthy translated then Inl MyMemoryNoResult
                         else Inr \<lparr>tr_translation = translated,
                                   tr_provider = S ''MyMemory''\<rparr>)))"

definition translateWithMyMemory :: "host \<Rightarrow> jv \<Rightarrow> bg_state \<Rightarrow> bg_state \<times> (exn + tresult)" where
  "translateWithMyMemory h text s =
     (case js_ToString h text of
        None \<Rightarrow> (s, Inl TypeError)
      | Some t \<Rightarrow>
          (case encodeURIComponent h t of
             None \<Rightarrow> (s, Inl URIError)
           | Some q \<Rightarrow>
               let (s', out) = do_fetch h (MyMemoryReq q) s in (s', mymemory_result out)))"

section \<open>background.js: the dictionary\<close>

text \<open>
  Each of the two loops over \<open>phonetics\<close> takes the first element \<open>p\<close> with
  \<open>p && typeof p.k === "string" && p.k.trim()\<close> and yields \<open>p.k.trim()\<close>; the variable it
  assigns starts as the empty string.
\<close>

fun first_phonetic :: "jsstring \<Rightarrow> jv list \<Rightarrow> jsstring" where
  "first_phonetic k [] = []"
| "first_phonetic k (p # ps) =
     (if truthy p \<and> is_string (opt_prop p k) \<and>
         (case opt_prop p k of JStr t \<Rightarrow> trim t \<noteq> [] | _ \<Rightarrow> False)
      then (case opt_prop p k of JStr t \<Rightarrow> trim t | _ \<Rightarrow> [])
      else first_phonetic k ps)"

text \<open>From \<open>const entry = data[0] || {}\<close> to the end of \<open>fetchDictionary\<close>.\<close>

definition parse_entry :: "jv \<Rightarrow> dentry option" where
  "parse_entry e0 =
     (let entry = js_or e0 (JObj []);
          phonetics = (case opt_prop entry (S ''phonetics'') of JArr ps \<Rightarrow> ps | _ \<Rightarrow> []);
          i = first_phonetic (S ''text'') phonetics;
          a = first_phonetic (S ''audio'') phonetics
      in if i = [] \<and> a = [] then None
         else Some \<lparr>ipa = (if i \<noteq> [] then Some i else None),
                    audio = (if a \<noteq> [] then Some a else None)\<rparr>)"

definition dict_result :: "fetch_outcome \<Rightarrow> exn + dentry option" where
  "dict_result out =
     (case out of
        FetchRejected \<Rightarrow> Inl FetchFailed
      | FetchResponse r \<Rightarrow>
          if \<not> ok r then Inl (DictHttp (status r))
          else (case body r of
                  None \<Rightarrow> Inl JsonFailed
                | Some data \<Rightarrow>
                    (case data of
                       JArr (e0 # es) \<Rightarrow> Inr (parse_entry e0)
                     | _ \<Rightarrow> Inl DictBadFormat)))"

definition fetchDictionary ::
  "host \<Rightarrow> jsstring \<Rightarrow> bg_state \<Rightarrow> bg_state \<times> (exn + dentry option)" where
  "fetchDictionary h word s =
     (let lower = toLowerCase h word in
      case encodeURIComponent h lower of
        None \<Rightarrow> (s, Inl URIError)
      | Some w \<Rightarrow> let (s', out) = do_fetch h (DictReq w) s in (s', dict_result out))"

section \<open>background.js: the orchestrator\<close>

text \<open>
  The \<open>if\<close>/\<open>else if\<close> on \<open>providerKey\<close> inside the \<open>try\<close>: \<open>result\<close> stays \<open>null\<close>
  for a key that is neither \<open>"libre"\<close> nor \<open>"mymemory"\<close>.
\<close>

definition call_provider ::
  "host \<Rightarrow> jsstring \<Rightarrow> jv \<Rightarrow> bg_state \<Rightarrow> bg_state \<times> (exn + tresult option)" where
  "call_provider h providerKey text s =
     (if providerKey = S ''libre'' then
        (case translateWithLibre h text s of
           (s', Inl e) \<Rightarrow> (s', Inl e)
         | (s', Inr r) \<Rightarrow> (s', Inr (Some r)))
      else if providerKey = S ''mymemory'' then
        (case translateWithMyMemory h text s of
           (s', Inl e) \<Rightarrow> (s', Inl e)
         | (s', Inr r) \<Rightarrow> (s', Inr (Some r)))
      else (s, Inr None))"

text \<open>
  The \<open>for\<close> loop over \<open>order\<close>. It yields \<open>translationResult\<close> and \<open>lastError\<close>; the
  string concatenation that builds \<open>cacheKey\<close> stands outside the \<open>try\<close>, so an exception
  of the conversion of \<open>text\<close> leaves the loop and the function.
\<close>

fun translate_loop ::
  "host \<Rightarrow> jv \<Rightarrow> jsstring list \<Rightarrow> bg_state \<Rightarrow> exn option \<Rightarrow>
     bg_state \<times> (exn + tresult option \<times> exn option)" where
  "translate_loop h text [] s lastError = (s, Inr (None, lastError))"
| "translate_loop h text (providerKey # rest) s lastError =
     (case js_ToString h text of
        None \<Rightarrow> (s, Inl TypeError)
      | Some t \<Rightarrow>
          (case translationCache s (providerKey @ S ''::'' @ t) of
             Some cached \<Rightarrow> (s, Inr (Some cached, lastError))
           | None \<Rightarrow>
               (case call_provider h providerKey text s of
                  (s', Inl err) \<Rightarrow> translate_loop h text rest s' (Some err)
                | (s', Inr None) \<Rightarrow> translate_loop h text rest s' lastError
                | (s', Inr (Some result)) \<Rightarrow>
                    if truthy (tr_translation result)
                    then (s'\<lparr>translationCache :=
                                (translationCache s')(providerKey @ S ''::'' @ t \<mapsto> result)\<rparr>,
                          Inr (Some result, lastError))
                    else translate_loop h text rest s' lastError)))"

text \<open>
  The dictionary block. \<open>text.toLowerCase()\<close> throws a TypeError when \<open>text\<close> is not a
  string, outside any \<open>try\<close>; an exception of \<open>fetchDictionary\<close> is caught and ignored.
\<close>

definition dict_phase ::
  "host \<Rightarrow> jv \<Rightarrow> jv \<Rightarrow> bg_state \<Rightarrow> bg_state \<times> (exn + dentry option)" where
  "dict_phase h text isWord s =
     (if \<not> truthy isWord then (s, Inr None)
      else (case text of
              JStr t \<Rightarrow>
                (case dictCache s (S ''DICT::'' @ toLowerCase h t) of
                   Some d \<Rightarrow> (s, Inr (Some d))
                 | None \<Rightarrow>
                     (case fetchDictionary h t s of
                        (s', Inl err) \<Rightarrow> (s', Inr None)
                      | (s', Inr None) \<Rightarrow> (s', Inr None)
                      | (s', Inr (Some r)) \<Rightarrow>
                          (s'\<lparr>dictCache := (dictCache s')(S ''DICT::'' @ toLowerCase h t \<mapsto> r)\<rparr>,
                           Inr (Some r))))
            | _ \<Rightarrow> (s, Inl TypeError)))"

text \<open>
  The object handed to \<open>sendResponse\<close>; \<open>None\<close> is \<open>null\<close>, and for \<open>error\<close> the absent
  key of the success object.
\<close>

record reply =
  success :: bool
  error :: "jsstring option"
  r_provider :: "jsstring option"
  r_translation :: "jv option"
  dict :: "dentry option"

text \<open>The message of both failure objects, as UTF-16 code units.\<close>

definition failure_message :: jsstring where
  "failure_message =
     [0x7FFB, 0x8BD1, 0x5931, 0x8D25, 0xFF0C, 0x8BF7, 0x7A0D, 0x540E, 0x91CD, 0x8BD5, 0x3002]"

definition failure_reply :: "dentry option \<Rightarrow> reply" where
  "failure_reply d =
     \<lparr>success = False, error = Some failure_message, r_provider = None,
      r_translation = None, dict = d\<rparr>"

definition success_reply :: "tresult \<Rightarrow> dentry option \<Rightarrow> reply" where
  "success_reply tr d =
     \<lparr>success = True, error = None, r_provider = Some (tr_provider tr),
      r_translation = Some (tr_translation tr), dict = d\<rparr>"

text \<open>
  \<open>handleTranslateAndDefine\<close> is an async function: \<open>None\<close> when its promise stays
  pending, else the state it leaves and either the exception it rejects with or the
  object it resolves with.
\<close>

definition handleTranslateAndDefine ::
  "host \<Rightarrow> storage_outcome \<Rightarrow> jv \<Rightarrow> bg_state \<Rightarrow> (bg_state \<times> (exn + reply)) option" where
  "handleTranslateAndDefine h sto message s =
     (case get_prop message (S ''text'') of
        Inl e \<Rightarrow> Some (s, Inl e)
      | Inr text \<Rightarrow>
          let isWord = opt_prop message (S ''isWord'') in
          (case getUserSettings sto of
             None \<Rightarrow> None
           | Some settings \<Rightarrow>
               (case translate_loop h text (getProvidersOrder (provider settings)) s None of
                  (s1, Inl e) \<Rightarrow> Some (s1, Inl e)
                | (s1, Inr (translationResult, lastError)) \<Rightarrow>
                    (case dict_phase h text isWord s1 of
                       (s2, Inl e) \<Rightarrow> Some (s2, Inl e)
                     | (s2, Inr dictResult) \<Rightarrow>
                         Some (s2, Inr (case translationResult of
                                          None \<Rightarrow> failure_reply dictResult
                                        | Some tr \<Rightarrow> success_reply tr dictResult))))))"

text \<open>
  The listener of \<open>chrome.runtime.onMessage\<close>: the state it leaves, the objects it passes
  to \<open>sendResponse\<close> in order, and whether it returns \<open>true\<close>.
\<close>

definition onMessage ::
  "host \<Rightarrow> storage_outcome \<Rightarrow> jv \<Rightarrow> bg_state \<Rightarrow> bg_state \<times> reply list \<times> bool" where
  "onMessage h sto message s =
     (if \<not> truthy message \<or> \<not> is_string (opt_prop message (S ''type'')) then (s, [], False)
      else if opt_prop message (S ''type'') = JStr (S ''TRANSLATE_AND_DEFINE'') then
        (case handleTranslateAndDefine h sto message s of
           None \<Rightarrow> (s, [], True)
         | Some (s', Inr result) \<Rightarrow> (s', [result], True)
         | Some (s', Inl err) \<Rightarrow> (s', [failure_reply None], True))
      else (s, [], False))"

section \<open>contentScript.js: from a selection to a message\<close>

definition isStripped :: "nat \<Rightarrow> bool" where
  "isStripped c \<longleftrightarrow>
     isWhiteSpace c \<or>
     c \<in> set [0x2C, 0xFF0C, 0x3002, 0x2E, 0x21, 0x3F, 0xFF1F, 0x3A, 0xFF1A, 0x3B, 0xFF1B,
               0x22, 0x27, 0x201C, 0x201D, 0x28, 0x29, 0xFF08, 0xFF09, 0x5B, 0x5D, 0x7B, 0x7D]"

definition isLetter :: "nat \<Rightarrow> bool" where
  "isLetter c \<longleftrightarrow> (0x41 \<le> c \<and> c \<le> 0x5A) \<or> (0x61 \<le> c \<and> c \<le> 0x7A)"

text \<open>
  The quotient \<open>letters / total\<close> is taken exactly: for counts of code units of a string
  the rounded quotient compares with \<open>0.6\<close> as the exact one does.
\<close>

definition isProbablyEnglish :: "jsstring \<Rightarrow> bool" where
  "isProbablyEnglish text =
     (let cleaned = filter (\<lambda>c. \<not> isStripped c) text in
      if cleaned = [] then False
      else let letters = length (filter isLetter cleaned); total = length cleaned in
           if total = 0 then False
           else letters > 0 \<and> (rat_of_nat letters / rat_of_nat total \<ge> 6 / 10))"

definition isSingleWord :: "jsstring \<Rightarrow> bool" where
  "isSingleWord text =
     (case trim text of
        [] \<Rightarrow> False
      | c # cs \<Rightarrow> isLetter c \<and> list_all (\<lambda>d. isLetter d \<or> d = 0x2D \<or> d = 0x27) cs)"

text \<open>
  \<open>window.getSelection()\<close>: no selection, or one with its \<open>isCollapsed\<close> flag and the
  string \<open>toString()\<close> gives.
\<close>

datatype selection = NoSelection | Selection bool jsstring

text \<open>
  Between the bookkeeping of the last trigger and the call of \<open>sendMessage\<close> the function
  only touches the DOM, the speech synthesis and the overlay. An exception there is caught
  by the outer \<open>try\<close> and ends the function; it falls either before or after the increment
  of \<open>currentRequestId\<close>.
\<close>

datatype dom_outcome = DomOk | DomThrowsBeforeRequestId | DomThrowsAfterRequestId

record cs_state =
  lastTriggerText :: jsstring
  lastTriggerAt :: int
  currentRequestId :: nat

text \<open>
  \<open>now\<close> is \<open>Date.now()\<close>. The result is the new state and the message given to
  \<open>chrome.runtime.sendMessage\<close>, if the function gets that far.
\<close>

definition triggerTranslateFromSelection ::
  "selection \<Rightarrow> int \<Rightarrow> dom_outcome \<Rightarrow> cs_state \<Rightarrow> cs_state \<times> jv option" where
  "triggerTranslateFromSelection sel now outcome cs =
     (case sel of
        NoSelection \<Rightarrow> (cs, None)
      | Selection isCollapsed str \<Rightarrow>
          if isCollapsed then (cs, None)
          else let text = trim str in
            if text = [] then (cs, None)
            else if \<not> isProbablyEnglish text then (cs, None)
            else if text = lastTriggerText cs \<and> now - lastTriggerAt cs < 300 then (cs, None)
            else let cs1 = cs\<lparr>lastTriggerText := text, lastTriggerAt := now\<rparr>;
                     isWord = isSingleWord text in
              if outcome = DomThrowsBeforeRequestId then (cs1, None)
              else let cs2 = cs1\<lparr>currentRequestId := currentRequestId cs1 + 1\<rparr> in
                if outcome = DomThrowsAfterRequestId then (cs2, None)
                else (cs2, Some (JObj [(S ''type'', JStr (S ''TRANSLATE_AND_DEFINE'')),
                                       (S ''text'', JStr text),
                                       (S ''isWord'', JBool isWord)])))"

text \<open>
  A selection event end to end: \<open>chrome.runtime.sendMessage\<close> delivers the message of the
  content script to the listener of the service worker.
\<close>

definition selection_event ::
  "host \<Rightarrow> storage_outcome \<Rightarrow> selection \<Rightarrow> int \<Rightarrow> dom_outcome \<Rightarrow> cs_state \<times> bg_state \<Rightarrow>
     cs_state \<times> bg_state \<times> reply list" where
  "selection_event h sto sel now outcome st =
     (case triggerTranslateFromSelection sel now outcome (fst st) of
        (cs', None) \<Rightarrow> (cs', snd st, [])
      | (cs', Some message) \<Rightarrow>
          (case onMessage h sto message (snd st) of
             (bg', responses, async) \<Rightarrow> (cs', bg', responses)))"

section \<open>Notions used to state the properties\<close>

text \<open>The provider key a logged request belongs to; the dictionary has its own.\<close>

fun req_key :: "request \<Rightarrow> jsstring" where
  "req_key (LibreReq text) = S ''libre''"
| "req_key (MyMemoryReq q) = S ''mymemory''"
| "req_key (DictReq w) = S ''DICT''"

text \<open>The name a provider function puts into the \<open>provider\<close> field of its result.\<close>

definition provider_name :: "jsstring \<Rightarrow> jsstring" where
  "provider_name providerKey =
     (if providerKey = S ''libre'' then S ''LibreTranslate''
      else if providerKey = S ''mymemory'' then S ''MyMemory''
      else [])"

text \<open>
  What the provider function makes of the answer to the request \<open>req\<close> issued as the
  \<open>n\<close>-th one: \<open>Inr r\<close> is a successful provider call with result \<open>r\<close>.
\<close>

definition provider_answer :: "host \<Rightarrow> nat \<Rightarrow> request \<Rightarrow> exn + tresult" where
  "provider_answer h n req =
     (case req of
        LibreReq text \<Rightarrow> libre_result (fetch h n req)
      | MyMemoryReq q \<Rightarrow> mymemory_result (fetch h n req)
      | DictReq w \<Rightarrow> Inl DictBadFormat)"

text \<open>The requests issued between two states.\<close>

definition new_calls :: "bg_state \<Rightarrow> bg_state \<Rightarrow> request list" where
  "new_calls s s' = drop (length (calls s)) (calls s')"

text \<open>
  The service worker starts with both caches empty, and its state changes only when the
  listener runs.
\<close>

definition initial_state :: bg_state where
  "initial_state = \<lparr>translationCache = Map.empty, dictCache = Map.empty, calls = []\<rparr>"

inductive reachable :: "host \<Rightarrow> bg_state \<Rightarrow> bool" for h :: host where
  start: "reachable h initial_state"
| message: "reachable h s \<Longrightarrow> onMessage h sto msg s = (s', responses, async) \<Longrightarrow> reachable h s'"

text \<open>
  \<open>later h s s'\<close>: the service worker is in state \<open>s'\<close> at some time after it was in
  \<open>s\<close>, any number of messages having been handled to the end in between.
\<close>

inductive later :: "host \<Rightarrow> bg_state \<Rightarrow> bg_state \<Rightarrow> bool"
  for h :: host and s :: bg_state where
  same: "later h s s"
| after: "later h s s' \<Longrightarrow> onMessage h sto msg s' = (s'', responses, async) \<Longrightarrow> later h s s''"

text \<open>
  Every cached translation is truthy and is the result of a successful call, logged
  earlier, to the provider whose key starts the cache key.
\<close>

definition cache_inv :: "host \<Rightarrow> bg_state \<Rightarrow> bool" where
  "cache_inv h s \<longleftrightarrow>
     (\<forall>k r. translationCache s k = Some r \<longrightarrow>
        truthy (tr_translation r) \<and>
        (\<exists>n < length (calls s). provider_answer h n (calls s ! n) = Inr r \<and>
           (\<exists>t. k = req_key (calls s ! n) @ S ''::'' @ t)))"

text \<open>
  The request \<open>call_provider\<close> issues for a provider key, if it gets as far as \<open>fetch\<close>,
  and the requests a traversal of the whole order issues, in order.
\<close>

definition provider_request :: "host \<Rightarrow> jsstring \<Rightarrow> jv \<Rightarrow> request option" where
  "provider_request h providerKey text =
     (if providerKey = S ''libre'' then Some (LibreReq text)
      else if providerKey = S ''mymemory'' then
        (case js_ToString h text of
           None \<Rightarrow> None
         | Some t \<Rightarrow> map_option MyMemoryReq (encodeURIComponent h t))
      else None)"

definition attempts :: "host \<Rightarrow> jv \<Rightarrow> jsstring list \<Rightarrow> request list" where
  "attempts h text order = List.map_filter (\<lambda>p. provider_request h p text) order"

text \<open>
  A dictionary lookup fails when \<open>fetchDictionary\<close> throws on the answer or returns
  \<open>null\<close>.
\<close>

definition dict_failed :: "fetch_outcome \<Rightarrow> bool" where
  "dict_failed out = (case dict_result out of Inr (Some d) \<Rightarrow> False | _ \<Rightarrow> True)"

section \<open>The dictionary entry as the specification words it\<close>

text \<open>
  A phonetic sub-entry exposes the field \<open>k\<close> when its \<open>k\<close> is a string that is not empty
  once trimmed; what it exposes is the trimmed string. The entry takes, for each field on
  its own, what the first sub-entry exposing the field exposes.
\<close>

definition exposes :: "jsstring \<Rightarrow> jv \<Rightarrow> bool" where
  "exposes k p = (case opt_prop p k of JStr t \<Rightarrow> trim t \<noteq> [] | _ \<Rightarrow> False)"

definition exposed :: "jsstring \<Rightarrow> jv \<Rightarrow> jsstring" where
  "exposed k p = (case opt_prop p k of JStr t \<Rightarrow> trim t | _ \<Rightarrow> [])"

definition first_exposed :: "jsstring \<Rightarrow> jv list \<Rightarrow> jsstring option" where
  "first_exposed k ps = map_option (exposed k) (find (exposes k) ps)"

definition spec_entry :: "jv list \<Rightarrow> dentry option" where
  "spec_entry ps =
     (if first_exposed (S ''text'') ps = None \<and> first_exposed (S ''audio'') ps = None then None
      else Some \<lparr>ipa = first_exposed (S ''text'') ps, audio = first_exposed (S ''audio'') ps\<rparr>)"

section \<open>Concrete hosts and requests\<close>

text \<open>The message \<open>triggerTranslateFromSelection\<close> sends for a text.\<close>

definition request_for :: "jsstring \<Rightarrow> bool \<Rightarrow> jv" where
  "request_for t w =
     JObj [(S ''type'', JStr (S ''TRANSLATE_AND_DEFINE'')), (S ''text'', JStr t),
           (S ''isWord'', JBool w)]"

text \<open>A settings store that holds only a provider preference.\<close>

definition stored_provider :: "jsstring \<Rightarrow> storage_outcome" where
  "stored_provider p = StorageItems [(S ''settings'', JObj [(S ''provider'', JStr p)])]"

text \<open>
  The example hosts lower-case the letters A to Z and leave a string as it is when they
  encode it for a URL, as \<open>toLowerCase\<close> and \<open>encodeURIComponent\<close> do on the
  strings of letters the examples use.
\<close>

definition ascii_lower :: "nat \<Rightarrow> nat" where
  "ascii_lower c = (if 0x41 \<le> c \<and> c \<le> 0x5A then c + 0x20 else c)"

text \<open>
  The conversion to a string of the example hosts: as JavaScript has it on \<open>undefined\<close>,
  \<open>null\<close> and the booleans, the only values the examples convert.
\<close>

fun example_ToString :: "jv \<Rightarrow> jsstring option" where
  "example_ToString JUndefined = Some (S ''undefined'')"
| "example_ToString JNull = Some (S ''null'')"
| "example_ToString (JBool b) = Some (if b then S ''true'' else S ''false'')"
| "example_ToString v = None"

text \<open>A host whose network rejects every request.\<close>

definition host_down :: host where
  "host_down =
     \<lparr>toLowerCase = map ascii_lower, encodeURIComponent = Some, ToString = example_ToString,
      fetch = (\<lambda>n req. FetchRejected)\<rparr>"

text \<open>The content script before any trigger.\<close>

definition cs_start :: cs_state where
  "cs_start = \<lparr>lastTriggerText = [], lastTriggerAt = 0, currentRequestId = 0\<rparr>"

text \<open>A message of the right type whose text is not a string.\<close>

definition throwing_message :: jv where
  "throwing_message =
     JObj [(S ''type'', JStr (S ''TRANSLATE_AND_DEFINE'')), (S ''text'', JNull),
           (S ''isWord'', JBool True)]"

text \<open>An answer of the dictionary with a transcription and an audio link.\<close>

definition dict_answer :: response where
  "dict_answer =
     \<lparr>status = 200,
      body = Some (JArr [JObj [(S ''phonetics'',
               JArr [JObj [(S ''text'', JStr (S ''/test/'')),
                           (S ''audio'', JStr (S ''a.mp3''))]])]])\<rparr>"

text \<open>A host whose translation providers answer 500 and whose dictionary answers.\<close>

definition host_dict_only :: host where
  "host_dict_only =
     \<lparr>toLowerCase = map ascii_lower, encodeURIComponent = Some, ToString = example_ToString,
      fetch = (\<lambda>n req. case req of
                 DictReq w \<Rightarrow> FetchResponse dict_answer
               | _ \<Rightarrow> FetchResponse \<lparr>status = 500, body = None\<rparr>)\<rparr>"

text \<open>
  A host where LibreTranslate answers with a translation (two code units), MyMemory is
  unreachable and the dictionary answers 404.
\<close>

definition host_no_dict :: host where
  "host_no_dict =
     \<lparr>toLowerCase = map ascii_lower, encodeURIComponent = Some, ToString = example_ToString,
      fetch = (\<lambda>n req. case req of
                 LibreReq q \<Rightarrow>
                   FetchResponse \<lparr>status = 200,
                     body = Some (JObj [(S ''translatedText'', JStr [0x4F60, 0x597D])])\<rparr>
               | MyMemoryReq q \<Rightarrow> FetchRejected
               | DictReq w \<Rightarrow> FetchResponse \<lparr>status = 404, body = None\<rparr>)\<rparr>"



text \<open>
  A host whose network is down and whose \<open>encodeURIComponent\<close> throws on a string with a
  surrogate code unit (the example gives it a lone one, on which it throws a URIError).
\<close>

definition host_uri_error :: host where
  "host_uri_error =
     \<lparr>toLowerCase = map ascii_lower,
      encodeURIComponent =
        (\<lambda>u. if list_ex (\<lambda>c. 0xD800 \<le> c \<and> c \<le> 0xDFFF) u then None else Some u),
      ToString = example_ToString, fetch = (\<lambda>n req. FetchRejected)\<rparr>"





section \<open>Auxiliary lemmas\<close>

lemma truthy_not_nullish: "truthy v \<Longrightarrow> \<not> nullish v"
  by (cases v) simp_all

lemma read_settings_total: "\<exists>st. read_settings items = Inr st"
  by (simp add: read_settings_def get_prop_def Let_def js_or_def truthy_not_nullish
      split: option.splits)

lemma getUserSettings_total: "\<exists>st. getUserSettings out = Some st"
proof (cases out)
  case (StorageItems items)
  then show ?thesis
    using read_settings_total[of items] by (auto simp: getUserSettings_def)
qed (simp_all add: getUserSettings_def)

lemma translateWithLibre_eq:
  "translateWithLibre h text s =
     (s\<lparr>calls := calls s @ [LibreReq text]\<rparr>,
      libre_result (fetch h (length (calls s)) (LibreReq text)))"
  by (simp add: translateWithLibre_def do_fetch_def)

lemma call_provider_effect:
  assumes "call_provider h p text s = (s1, r1)"
  shows "translationCache s1 = translationCache s \<and> dictCache s1 = dictCache s \<and>
         (\<exists>cs. calls s1 = calls s @ cs \<and> length cs \<le> 1 \<and> (\<forall>c \<in> set cs. req_key c = p))"
  using assms
  by (auto simp: call_provider_def translateWithLibre_eq translateWithMyMemory_def do_fetch_def
        Let_def
      split: if_splits sum.splits option.splits prod.splits)

lemma call_provider_success:
  assumes "call_provider h p text s = (s1, Inr (Some res))"
  shows "\<exists>c. calls s1 = calls s @ [c] \<and> req_key c = p \<and>
             provider_answer h (length (calls s)) c = Inr res"
  using assms
  by (auto simp: call_provider_def translateWithLibre_eq translateWithMyMemory_def do_fetch_def
        Let_def provider_answer_def
      split: if_splits sum.splits option.splits prod.splits)

text \<open>The four ways one round of the loop can go.\<close>

lemma translate_loop_Cons_cases:
  assumes "translate_loop h text (p # rest) s le = (s', r)"
  obtains
    (throw) "js_ToString h text = None" "s' = s" "r = Inl TypeError"
  | (hit) t cached where "js_ToString h text = Some t"
      "translationCache s (p @ S ''::'' @ t) = Some cached" "s' = s" "r = Inr (Some cached, le)"
  | (stored) t s1 res where "js_ToString h text = Some t"
      "translationCache s (p @ S ''::'' @ t) = None"
      "call_provider h p text s = (s1, Inr (Some res))" "truthy (tr_translation res)"
      "s' = s1\<lparr>translationCache := (translationCache s1)(p @ S ''::'' @ t \<mapsto> res)\<rparr>"
      "r = Inr (Some res, le)"
  | (continue) t s1 r1 le' where "js_ToString h text = Some t"
      "translationCache s (p @ S ''::'' @ t) = None"
      "call_provider h p text s = (s1, r1)"
      "\<forall>res. r1 = Inr (Some res) \<longrightarrow> \<not> truthy (tr_translation res)"
      "translate_loop h text rest s1 le' = (s', r)"
proof (cases "js_ToString h text")
  case None
  show ?thesis by (rule throw) (use assms None in simp_all)
next
  case (Some t)
  note ts = this
  show ?thesis
  proof (cases "translationCache s (p @ S ''::'' @ t)")
    case (Some cached)
    show ?thesis by (rule hit[of t cached]) (use assms ts Some in simp_all)
  next
    case None
    note miss = this
    obtain s1 r1 where cp: "call_provider h p text s = (s1, r1)"
      by (cases "call_provider h p text s")
    show ?thesis
    proof (cases r1)
      case (Inl err)
      show ?thesis
        by (rule continue[of t s1 r1 "Some err"]) (use assms ts miss cp Inl in simp_all)
    next
      case (Inr ro)
      show ?thesis
      proof (cases ro)
        case None
        show ?thesis
          by (rule continue[of t s1 r1 le]) (use assms ts miss cp Inr None in simp_all)
      next
        case (Some res)
        show ?thesis
        proof (cases "truthy (tr_translation res)")
          case True
          show ?thesis
            by (rule stored[of t s1 res]) (use assms ts miss cp Inr Some True in simp_all)
        next
          case False
          show ?thesis
            by (rule continue[of t s1 r1 le]) (use assms ts miss cp Inr Some False in simp_all)
        qed
      qed
    qed
  qed
qed

lemma count_le_one:
  assumes "length cs \<le> 1" "\<forall>c \<in> set cs. req_key c = p"
  shows "count_list (map req_key cs) q \<le> (if p = q then 1 else 0)"
proof (cases cs)
  case Nil
  then show ?thesis by simp
next
  case (Cons c cs')
  with assms show ?thesis by (cases cs') auto
qed

lemma translate_loop_effect:
  "translate_loop h text order s le = (s', r) \<Longrightarrow>
     dictCache s' = dictCache s \<and>
     (\<exists>cs. calls s' = calls s @ cs \<and>
           (\<forall>p. count_list (map req_key cs) p \<le> count_list order p))"
proof (induction order arbitrary: s le)
  case Nil
  then show ?case by simp
next
  case (Cons p rest)
  from Cons.prems show ?case
  proof (cases rule: translate_loop_Cons_cases)
    case throw
    then show ?thesis by simp
  next
    case (hit t cached)
    then show ?thesis by simp
  next
    case (stored t s1 res)
    from call_provider_effect[OF stored(3)] obtain cs1 where
      e: "dictCache s1 = dictCache s" "calls s1 = calls s @ cs1" "length cs1 \<le> 1"
         "\<forall>c \<in> set cs1. req_key c = p"
      by blast
    have "count_list (map req_key cs1) q \<le> count_list (p # rest) q" for q
      using count_le_one[OF e(3,4), of q] by (cases "p = q") auto
    with stored e show ?thesis by simp
  next
    case (continue t s1 r1 le')
    from call_provider_effect[OF continue(3)] obtain cs1 where
      e: "dictCache s1 = dictCache s" "calls s1 = calls s @ cs1" "length cs1 \<le> 1"
         "\<forall>c \<in> set cs1. req_key c = p"
      by blast
    from Cons.IH[OF continue(5)] obtain cs2 where
      i: "dictCache s' = dictCache s1" "calls s' = calls s1 @ cs2"
         "\<forall>q. count_list (map req_key cs2) q \<le> count_list rest q" by blast
    have "count_list (map req_key (cs1 @ cs2)) q \<le> count_list (p # rest) q" for q
      using count_le_one[OF e(3,4), of q] i(3)[rule_format, of q] by (cases "p = q") simp_all
    with i e show ?thesis by simp
  qed
qed

lemma fetchDictionary_effect:
  assumes "fetchDictionary h word s = (s', r)"
  shows "translationCache s' = translationCache s \<and> dictCache s' = dictCache s \<and>
         (\<exists>cs. calls s' = calls s @ cs \<and> length cs \<le> 1 \<and> (\<forall>c \<in> set cs. req_key c = S ''DICT''))"
  using assms
  by (auto simp: fetchDictionary_def do_fetch_def Let_def split: option.splits prod.splits)

lemma dict_phase_effect:
  assumes "dict_phase h text isWord s = (s', r)"
  shows "translationCache s' = translationCache s \<and>
         (\<exists>cs. calls s' = calls s @ cs \<and> length cs \<le> 1 \<and> (\<forall>c \<in> set cs. req_key c = S ''DICT''))"
proof (cases "truthy isWord \<and> is_string text")
  case False
  with assms show ?thesis
    by (cases "text") (auto simp: dict_phase_def split: if_splits)
next
  case True
  then obtain t where t: "text = JStr t" by (cases "text") auto
  show ?thesis
  proof (cases "dictCache s (S ''DICT::'' @ toLowerCase h t)")
    case (Some d)
    with assms True t show ?thesis by (simp add: dict_phase_def)
  next
    case None
    obtain s1 r1 where fd: "fetchDictionary h t s = (s1, r1)"
      by (cases "fetchDictionary h t s")
    from fetchDictionary_effect[OF fd] assms True t None fd show ?thesis
      by (auto simp: dict_phase_def split: sum.splits option.splits)
  qed
qed

text \<open>The handler is the loop followed by the dictionary block.\<close>

lemma handle_unfold:
  assumes "\<not> nullish message" "getUserSettings sto = Some st"
    and "translate_loop h (opt_prop message (S ''text'')) (getProvidersOrder (provider st)) s None
           = (s1, lr)"
    and "dict_phase h (opt_prop message (S ''text'')) (opt_prop message (S ''isWord'')) s1
           = (s2, dr)"
  shows "handleTranslateAndDefine h sto message s =
           Some (case lr of
                   Inl e \<Rightarrow> (s1, Inl e)
                 | Inr (translationResult, lastError) \<Rightarrow>
                     (case dr of
                        Inl e \<Rightarrow> (s2, Inl e)
                      | Inr dictResult \<Rightarrow>
                          (s2, Inr (case translationResult of
                                      None \<Rightarrow> failure_reply dictResult
                                    | Some tr \<Rightarrow> success_reply tr dictResult))))"
  using assms
  by (simp add: handleTranslateAndDefine_def get_prop_def Let_def split: sum.splits prod.splits)

lemma handle_nullish:
  "nullish message \<Longrightarrow> handleTranslateAndDefine h sto message s = Some (s, Inl TypeError)"
  by (simp add: handleTranslateAndDefine_def get_prop_def)

lemma handle_effect:
  assumes "handleTranslateAndDefine h sto message s = Some (s', res)"
    and "getUserSettings sto = Some st"
  shows "\<exists>cs. calls s' = calls s @ cs \<and>
           (\<forall>p. count_list (map req_key cs) p
                  \<le> count_list (getProvidersOrder (provider st) @ [S ''DICT'']) p)"
proof (cases "nullish message")
  case True
  with assms show ?thesis by (simp add: handle_nullish)
next
  case False
  let ?text = "opt_prop message (S ''text'')"
  obtain s1 lr where lp:
    "translate_loop h ?text (getProvidersOrder (provider st)) s None = (s1, lr)"
    by (cases "translate_loop h ?text (getProvidersOrder (provider st)) s None")
  obtain s2 dr where dp:
    "dict_phase h ?text (opt_prop message (S ''isWord'')) s1 = (s2, dr)"
    by (cases "dict_phase h ?text (opt_prop message (S ''isWord'')) s1")
  from translate_loop_effect[OF lp] obtain cs1 where
    a: "calls s1 = calls s @ cs1"
       "\<forall>p. count_list (map req_key cs1) p \<le> count_list (getProvidersOrder (provider st)) p"
    by blast
  from dict_phase_effect[OF dp] obtain cs2 where
    b: "calls s2 = calls s1 @ cs2" "length cs2 \<le> 1" "\<forall>c \<in> set cs2. req_key c = S ''DICT''"
    by blast
  have s': "s' = s1 \<or> s' = s2"
    using assms(1) handle_unfold[OF False assms(2) lp dp]
    by (auto split: sum.splits prod.splits)
  from s' show ?thesis
  proof
    assume "s' = s1"
    moreover have "count_list (map req_key cs1) q
        \<le> count_list (getProvidersOrder (provider st) @ [S ''DICT'']) q" for q
      using a(2)[rule_format, of q] by simp
    ultimately show ?thesis using a(1) by blast
  next
    assume "s' = s2"
    moreover have "count_list (map req_key (cs1 @ cs2)) q
        \<le> count_list (getProvidersOrder (provider st) @ [S ''DICT'']) q" for q
      using a(2)[rule_format, of q] count_le_one[OF b(2,3), of q] by (simp split: if_splits)
    ultimately show ?thesis using a(1) b(1) by (metis append.assoc)
  qed
qed
lemmas model_defs =
  handleTranslateAndDefine_def getUserSettings_def read_settings_def getProvidersOrder_def
  call_provider_def translateWithLibre_def translateWithMyMemory_def do_fetch_def
  libre_result_def mymemory_result_def dict_phase_def fetchDictionary_def dict_result_def
  parse_entry_def js_ToString_def get_prop_def js_or_def failure_reply_def success_reply_def
  onMessage_def ok_def initial_state_def request_for_def stored_provider_def

section \<open>The settings resolver\<close>

text \<open>
  Claim C6. \<open>getUserSettings\<close> never throws and never stays pending: whatever the storage
  does (it throws, it reports \<open>lastError\<close>, it hands over any items object, with the
  settings missing or malformed), the promise resolves with a settings value. When the
  read fails the value is \<open>DEFAULT_SETTINGS\<close>, whose provider preference is \<open>"auto"\<close>; a
  store without a \<open>settings\<close> entry gives the same. The function is a function of the
  storage outcome alone: it neither reads nor changes the caches, and issues no request.
\<close>

theorem getUserSettings_never_throws:
  "(\<exists>st. getUserSettings out = Some st) \<and>
   getUserSettings StorageThrows = Some DEFAULT_SETTINGS \<and>
   getUserSettings StorageLastError = Some DEFAULT_SETTINGS \<and>
   getUserSettings (StorageItems []) = Some DEFAULT_SETTINGS \<and>
   provider DEFAULT_SETTINGS = JStr (S ''auto'')"
proof -
  have "getUserSettings (StorageItems []) = Some DEFAULT_SETTINGS"
    by (simp add: getUserSettings_def read_settings_def get_prop_def js_or_def)
  then show ?thesis
    using getUserSettings_total[of out]
    by (simp add: getUserSettings_def DEFAULT_SETTINGS_def)
qed

text \<open>
  The same at a store whose \<open>settings\<close> entry is the number 5 instead of an object: every
  field falls back to its default.
\<close>

theorem getUserSettings_never_throws_witness:
  "getUserSettings (StorageItems [(S ''settings'', JNum (JFinite 5))]) = Some DEFAULT_SETTINGS \<and>
   getUserSettings StorageThrows = Some DEFAULT_SETTINGS \<and>
   provider DEFAULT_SETTINGS = JStr (S ''auto'')"
  using getUserSettings_never_throws[of "StorageItems [(S ''settings'', JNum (JFinite 5))]"]
  by (simp add: model_defs DEFAULT_SETTINGS_def)

section \<open>The provider order\<close>

text \<open>
  Claim C2. The provider preference \<open>"auto"\<close> gives the order libre, mymemory; \<open>"libre"\<close>
  gives libre alone; \<open>"mymemory"\<close> gives mymemory alone; every other value, a string or
  not, gives the order of \<open>"auto"\<close>. Hence a request handled under the preference
  \<open>"mymemory"\<close> issues no request to LibreTranslate, whatever MyMemory answers.
\<close>

theorem provider_order:
  "getProvidersOrder (JStr (S ''auto'')) = [S ''libre'', S ''mymemory''] \<and>
   getProvidersOrder (JStr (S ''libre'')) = [S ''libre''] \<and>
   getProvidersOrder (JStr (S ''mymemory'')) = [S ''mymemory''] \<and>
   (v \<noteq> JStr (S ''libre'') \<and> v \<noteq> JStr (S ''mymemory'') \<longrightarrow>
      getProvidersOrder v = [S ''libre'', S ''mymemory'']) \<and>
   (getUserSettings sto = Some st \<and> provider st = JStr (S ''mymemory'') \<and>
    handleTranslateAndDefine h sto message s = Some (s', res) \<longrightarrow>
      (\<exists>cs. calls s' = calls s @ cs \<and> (\<forall>c \<in> set cs. req_key c \<noteq> S ''libre'')))"
proof -
  have "\<exists>cs. calls s' = calls s @ cs \<and> (\<forall>c \<in> set cs. req_key c \<noteq> S ''libre'')"
    if a: "getUserSettings sto = Some st" "provider st = JStr (S ''mymemory'')"
      "handleTranslateAndDefine h sto message s = Some (s', res)"
  proof -
    from handle_effect[OF a(3) a(1)] obtain cs where
      cs: "calls s' = calls s @ cs"
        "\<forall>p. count_list (map req_key cs) p
               \<le> count_list (getProvidersOrder (provider st) @ [S ''DICT'']) p"
      by blast
    have "count_list (map req_key cs) (S ''libre'') = 0"
      using cs(2)[rule_format, of "S ''libre''"] a(2) by (simp add: getProvidersOrder_def)
    then have "\<forall>c \<in> set cs. req_key c \<noteq> S ''libre''"
      by (metis count_list_0_iff image_eqI list.set_map)
    with cs(1) show ?thesis by blast
  qed
  then show ?thesis by (simp add: getProvidersOrder_def)
qed

text \<open>
  With the preference \<open>"mymemory"\<close> stored and a network that is down, the request for
  \<open>"hi"\<close> fails after one request, to MyMemory; \<open>null\<close> as a preference gives both
  providers.
\<close>

theorem provider_order_witness:
  "JNull \<noteq> JStr (S ''libre'') \<and> JNull \<noteq> JStr (S ''mymemory'') \<and>
   getProvidersOrder JNull = [S ''libre'', S ''mymemory''] \<and>
   getUserSettings (stored_provider (S ''mymemory'')) =
     Some (DEFAULT_SETTINGS\<lparr>provider := JStr (S ''mymemory'')\<rparr>) \<and>
   handleTranslateAndDefine host_down (stored_provider (S ''mymemory''))
       (request_for (S ''hi'') False) initial_state =
     Some (initial_state\<lparr>calls := [MyMemoryReq (S ''hi'')]\<rparr>, Inr (failure_reply None)) \<and>
   (\<exists>cs. [MyMemoryReq (S ''hi'')] = [] @ cs \<and> list_all (\<lambda>c. req_key c \<noteq> S ''libre'') cs)"
proof -
  have a: "getUserSettings (stored_provider (S ''mymemory'')) =
             Some (DEFAULT_SETTINGS\<lparr>provider := JStr (S ''mymemory'')\<rparr>)"
    by (simp add: model_defs DEFAULT_SETTINGS_def)
  have b: "handleTranslateAndDefine host_down (stored_provider (S ''mymemory''))
       (request_for (S ''hi'') False) initial_state =
     Some (initial_state\<lparr>calls := [MyMemoryReq (S ''hi'')]\<rparr>, Inr (failure_reply None))"
    by (simp add: model_defs DEFAULT_SETTINGS_def host_down_def)
  show ?thesis
    using a b
      provider_order[of JNull "stored_provider (S ''mymemory'')"
        "DEFAULT_SETTINGS\<lparr>provider := JStr (S ''mymemory'')\<rparr>" host_down
        "request_for (S ''hi'') False" initial_state
        "initial_state\<lparr>calls := [MyMemoryReq (S ''hi'')]\<rparr>" "Inr (failure_reply None)"]
    by (simp add: initial_state_def list_all_iff)
qed

section \<open>The dictionary entry\<close>

lemma exposes_iff:
  "exposes k p \<longleftrightarrow>
     truthy p \<and> is_string (opt_prop p k) \<and>
     (case opt_prop p k of JStr t \<Rightarrow> trim t \<noteq> [] | _ \<Rightarrow> False)"
  by (cases p; cases "opt_prop p k") (simp_all add: exposes_def)

lemma first_phonetic_find:
  "first_phonetic k ps = (case find (exposes k) ps of None \<Rightarrow> [] | Some p \<Rightarrow> exposed k p)"
proof (induction ps)
  case Nil
  then show ?case by simp
next
  case (Cons p ps)
  show ?case
  proof (cases "exposes k p")
    case True
    then show ?thesis
      using exposes_iff[of k p] by (simp add: exposed_def)
  next
    case False
    then show ?thesis
      using exposes_iff[of k p] Cons.IH by auto
  qed
qed

lemma find_exposed_nonempty:
  assumes "find (exposes k) ps = Some p"
  shows "exposed k p \<noteq> []"
proof -
  from assms have "exposes k p" by (auto simp: find_Some_iff)
  then show ?thesis
    by (cases "opt_prop p k") (simp_all add: exposes_def exposed_def)
qed

lemma first_phonetic_spec:
  "first_exposed k ps = (if first_phonetic k ps = [] then None else Some (first_phonetic k ps))"
proof (cases "find (exposes k) ps")
  case None
  then show ?thesis by (simp add: first_exposed_def first_phonetic_find)
next
  case (Some p)
  with find_exposed_nonempty[OF Some] show ?thesis
    by (simp add: first_exposed_def first_phonetic_find)
qed

lemma parse_entry_spec:
  assumes "opt_prop e (S ''phonetics'') = JArr ps"
  shows "parse_entry e = spec_entry ps"
proof -
  from assms have "truthy e" by (cases e) simp_all
  with assms show ?thesis
    by (simp add: parse_entry_def spec_entry_def js_or_def Let_def first_phonetic_spec)
qed

text \<open>
  Claim C5. When the dictionary answers with a 2xx status and a JSON array whose first
  element has a list \<open>phonetics\<close>, the parsed entry is the one the specification words:
  \<open>ipa\<close> is the trimmed transcription of the first sub-entry whose \<open>text\<close> is a string
  that is not blank, \<open>audio\<close> is, independently, the trimmed URL of the first sub-entry
  whose \<open>audio\<close> is a string that is not blank, a field without such a sub-entry is
  \<open>null\<close>, and the whole result is \<open>null\<close> when both are. The sub-entries
  \<open>[{text: ""}, {audio: "a.mp3"}, {text: "/t\<epsilon>st/"}]\<close> (the third code unit of the
  transcription is U+025B) parse to that transcription and \<open>"a.mp3"\<close>.
\<close>

theorem dictionary_entry_first_match:
  "(ok r \<and> body r = Some (JArr (e # es)) \<and> opt_prop e (S ''phonetics'') = JArr ps \<longrightarrow>
      dict_result (FetchResponse r) = Inr (spec_entry ps)) \<and>
   spec_entry [JObj [(S ''text'', JStr [])], JObj [(S ''audio'', JStr (S ''a.mp3''))],
               JObj [(S ''text'', JStr [0x2F, 0x74, 0x25B, 0x73, 0x74, 0x2F])]] =
     Some \<lparr>ipa = Some [0x2F, 0x74, 0x25B, 0x73, 0x74, 0x2F], audio = Some (S ''a.mp3'')\<rparr> \<and>
   spec_entry [] = None"
proof -
  have "dict_result (FetchResponse r) = Inr (spec_entry ps)"
    if "ok r" "body r = Some (JArr (e # es))" "opt_prop e (S ''phonetics'') = JArr ps"
    using that by (simp add: dict_result_def parse_entry_spec)
  moreover have "spec_entry [JObj [(S ''text'', JStr [])], JObj [(S ''audio'', JStr (S ''a.mp3''))],
               JObj [(S ''text'', JStr [0x2F, 0x74, 0x25B, 0x73, 0x74, 0x2F])]] =
     Some \<lparr>ipa = Some [0x2F, 0x74, 0x25B, 0x73, 0x74, 0x2F], audio = Some (S ''a.mp3'')\<rparr>"
    by (simp add: spec_entry_def first_exposed_def exposes_def exposed_def trim_def
        isWhiteSpace_def)
  moreover have "spec_entry [] = None"
    by (simp add: spec_entry_def first_exposed_def)
  ultimately show ?thesis by blast
qed

text \<open>
  The answer of the claim's example as the code parses it, status 200, with the
  transcription padded by a space that \<open>trim\<close> removes.
\<close>

theorem dictionary_entry_first_match_witness:
  "ok \<lparr>status = 200, body = Some (JArr [JObj [(S ''phonetics'', JArr
        [JObj [(S ''text'', JStr [])], JObj [(S ''audio'', JStr (S ''a.mp3''))],
         JObj [(S ''text'', JStr (S '' /test/ ''))]])]])\<rparr> \<and>
   dict_result (FetchResponse \<lparr>status = 200, body = Some (JArr [JObj [(S ''phonetics'', JArr
        [JObj [(S ''text'', JStr [])], JObj [(S ''audio'', JStr (S ''a.mp3''))],
         JObj [(S ''text'', JStr (S '' /test/ ''))]])]])\<rparr>) =
     Inr (Some \<lparr>ipa = Some (S ''/test/''), audio = Some (S ''a.mp3'')\<rparr>)"
  using dictionary_entry_first_match[of
      "\<lparr>status = 200, body = Some (JArr [JObj [(S ''phonetics'', JArr
        [JObj [(S ''text'', JStr [])], JObj [(S ''audio'', JStr (S ''a.mp3''))],
         JObj [(S ''text'', JStr (S '' /test/ ''))]])]])\<rparr>"
      "JObj [(S ''phonetics'', JArr
        [JObj [(S ''text'', JStr [])], JObj [(S ''audio'', JStr (S ''a.mp3''))],
         JObj [(S ''text'', JStr (S '' /test/ ''))]])]" "[]"
      "[JObj [(S ''text'', JStr [])], JObj [(S ''audio'', JStr (S ''a.mp3''))],
         JObj [(S ''text'', JStr (S '' /test/ ''))]]"]
  by (simp add: ok_def spec_entry_def first_exposed_def exposes_def exposed_def trim_def
      isWhiteSpace_def)

section \<open>Blank selections\<close>

lemma trim_blank_iff: "trim s = [] \<longleftrightarrow> (\<forall>c \<in> set s. isWhiteSpace c)"
proof
  assume "trim s = []"
  then have a: "dropWhile isWhiteSpace (rev (dropWhile isWhiteSpace s)) = []"
    by (simp add: trim_def)
  have "dropWhile isWhiteSpace s = []"
  proof (rule ccontr)
    assume n: "dropWhile isWhiteSpace s \<noteq> []"
    then have "\<not> isWhiteSpace (hd (dropWhile isWhiteSpace s))"
      by (rule hd_dropWhile)
    moreover from a have "\<forall>c \<in> set (rev (dropWhile isWhiteSpace s)). isWhiteSpace c"
      by (simp add: dropWhile_eq_Nil_conv)
    ultimately show False using n by (metis hd_in_set set_rev)
  qed
  then show "\<forall>c \<in> set s. isWhiteSpace c" by (simp add: dropWhile_eq_Nil_conv)
next
  assume "\<forall>c \<in> set s. isWhiteSpace c"
  then have "dropWhile isWhiteSpace s = []" by (simp add: dropWhile_eq_Nil_conv)
  then show "trim s = []" by (simp only: trim_def rev.simps dropWhile.simps)
qed

text \<open>
  Claim C8. A selection whose text is empty or consists of white space only is rejected
  by \<open>triggerTranslateFromSelection\<close> before anything is sent: no message reaches the
  service worker, so neither cache changes, no request is issued to a translation
  provider or to the dictionary, and no response comes back; the content script's own
  state is untouched as well.
\<close>

theorem blank_selection_rejected:
  "(\<forall>c \<in> set str. isWhiteSpace c) \<longrightarrow>
     triggerTranslateFromSelection (Selection isCollapsed str) now outcome cs = (cs, None) \<and>
     selection_event h sto (Selection isCollapsed str) now outcome (cs, bg) = (cs, bg, []) \<and>
     new_calls bg (fst (snd (selection_event h sto (Selection isCollapsed str) now outcome (cs, bg))))
       = []"
proof
  assume "\<forall>c \<in> set str. isWhiteSpace c"
  then have "trim str = []" by (simp add: trim_blank_iff)
  then have t: "triggerTranslateFromSelection (Selection isCollapsed str) now outcome cs = (cs, None)"
    by (simp add: triggerTranslateFromSelection_def)
  then have "selection_event h sto (Selection isCollapsed str) now outcome (cs, bg) = (cs, bg, [])"
    by (simp add: selection_event_def)
  with t show
    "triggerTranslateFromSelection (Selection isCollapsed str) now outcome cs = (cs, None) \<and>
     selection_event h sto (Selection isCollapsed str) now outcome (cs, bg) = (cs, bg, []) \<and>
     new_calls bg (fst (snd (selection_event h sto (Selection isCollapsed str) now outcome (cs, bg))))
       = []"
    by (simp add: new_calls_def)
qed

text \<open>
  A selection of a space, a no-break space and a line feed, with a network that would
  answer: nothing is sent. The selection \<open>"hi"\<close> at the same moment does send a message.
\<close>

theorem blank_selection_rejected_witness:
  "list_all isWhiteSpace [0x20, 0xA0, 0x0A] \<and>
   selection_event host_down (stored_provider (S ''auto'')) (Selection False [0x20, 0xA0, 0x0A])
       1000 DomOk (cs_start, initial_state) = (cs_start, initial_state, []) \<and>
   new_calls initial_state (fst (snd (selection_event host_down (stored_provider (S ''auto''))
       (Selection False [0x20, 0xA0, 0x0A]) 1000 DomOk (cs_start, initial_state)))) = [] \<and>
   triggerTranslateFromSelection (Selection False (S '' hi '')) 1000 DomOk cs_start =
     (\<lparr>lastTriggerText = S ''hi'', lastTriggerAt = 1000, currentRequestId = 1\<rparr>,
      Some (request_for (S ''hi'') True))"
proof -
  have w: "\<forall>c \<in> set [0x20, 0xA0, 0x0A]. isWhiteSpace c"
    by (simp add: isWhiteSpace_def)
  have "triggerTranslateFromSelection (Selection False (S '' hi '')) 1000 DomOk cs_start =
     (\<lparr>lastTriggerText = S ''hi'', lastTriggerAt = 1000, currentRequestId = 1\<rparr>,
      Some (request_for (S ''hi'') True))"
    by (simp add: triggerTranslateFromSelection_def trim_def isWhiteSpace_def
        isProbablyEnglish_def isStripped_def isLetter_def isSingleWord_def cs_start_def
        request_for_def Let_def)
  with w show ?thesis
    using blank_selection_rejected[of "[0x20, 0xA0, 0x0A]" False 1000 DomOk cs_start
        host_down "stored_provider (S ''auto'')" initial_state]
    by (simp add: list_all_iff new_calls_def)
qed
text \<open>
  The listener itself does not look at the text, the guard is the content script's: a
  message with the empty text, were one sent, would go to both providers.
\<close>

lemma listener_does_not_check_text:
  "onMessage host_down (stored_provider (S ''auto'')) (request_for [] False) initial_state =
     (initial_state\<lparr>calls := [LibreReq (JStr []), MyMemoryReq []]\<rparr>,
      [failure_reply None], True)"
  by (simp add: model_defs DEFAULT_SETTINGS_def host_down_def)
section \<open>The listener\<close>

lemma handle_total: "\<exists>s' res. handleTranslateAndDefine h sto message s = Some (s', res)"
proof (cases "nullish message")
  case True
  then show ?thesis by (simp add: handle_nullish)
next
  case False
  obtain st where st: "getUserSettings sto = Some st"
    using getUserSettings_total by blast
  obtain s1 lr where lp:
    "translate_loop h (opt_prop message (S ''text'')) (getProvidersOrder (provider st)) s None
       = (s1, lr)"
    by (cases "translate_loop h (opt_prop message (S ''text''))
                 (getProvidersOrder (provider st)) s None")
  obtain s2 dr where dp:
    "dict_phase h (opt_prop message (S ''text'')) (opt_prop message (S ''isWord'')) s1 = (s2, dr)"
    by (cases "dict_phase h (opt_prop message (S ''text'')) (opt_prop message (S ''isWord'')) s1")
  show ?thesis
    using handle_unfold[OF False st lp dp] by (simp split: sum.splits prod.splits)
qed

lemma handle_reply_shape:
  assumes "handleTranslateAndDefine h sto message s = Some (s', Inr rep)"
  shows "(\<exists>d. rep = failure_reply d) \<or> (\<exists>tr d. rep = success_reply tr d)"
proof (cases "nullish message")
  case True
  with assms show ?thesis by (simp add: handle_nullish)
next
  case False
  obtain st where st: "getUserSettings sto = Some st"
    using getUserSettings_total by blast
  obtain s1 lr where lp:
    "translate_loop h (opt_prop message (S ''text'')) (getProvidersOrder (provider st)) s None
       = (s1, lr)"
    by (cases "translate_loop h (opt_prop message (S ''text''))
                 (getProvidersOrder (provider st)) s None")
  obtain s2 dr where dp:
    "dict_phase h (opt_prop message (S ''text'')) (opt_prop message (S ''isWord'')) s1 = (s2, dr)"
    by (cases "dict_phase h (opt_prop message (S ''text'')) (opt_prop message (S ''isWord'')) s1")
  show ?thesis
    using assms handle_unfold[OF False st lp dp]
    by (auto split: sum.splits prod.splits option.splits)
qed

text \<open>
  Claim C9. For every message whose \<open>type\<close> is \<open>"TRANSLATE_AND_DEFINE"\<close> the listener
  calls \<open>sendResponse\<close> exactly once and returns \<open>true\<close>. The object sent is either the
  success object (\<open>success\<close> true, \<open>provider\<close> and \<open>translation\<close> set, no \<open>error\<close>) or the
  failure object (\<open>success\<close> false, \<open>provider\<close> and \<open>translation\<close> \<open>null\<close>, the fixed
  message as \<open>error\<close>); and when \<open>handleTranslateAndDefine\<close> rejects with an exception, the
  object sent is the failure object with \<open>dict\<close> \<open>null\<close>. (Every \<open>fetch\<close> is taken to
  settle, and \<open>sendResponse\<close> not to throw.)
\<close>

theorem listener_always_responds:
  "opt_prop message (S ''type'') = JStr (S ''TRANSLATE_AND_DEFINE'') \<longrightarrow>
     (\<exists>s' rep. onMessage h sto message s = (s', [rep], True) \<and>
        (success rep \<and> error rep = None \<and> r_provider rep \<noteq> None \<and> r_translation rep \<noteq> None \<or>
         \<not> success rep \<and> error rep = Some failure_message \<and> r_provider rep = None \<and>
           r_translation rep = None)) \<and>
     (\<forall>s1 e. handleTranslateAndDefine h sto message s = Some (s1, Inl e) \<longrightarrow>
        onMessage h sto message s =
          (s1, [\<lparr>success = False, error = Some failure_message, r_provider = None,
                 r_translation = None, dict = None\<rparr>], True))"
proof
  assume ty: "opt_prop message (S ''type'') = JStr (S ''TRANSLATE_AND_DEFINE'')"
  then have tr: "truthy message" by (cases message) simp_all
  obtain s' res where hd: "handleTranslateAndDefine h sto message s = Some (s', res)"
    using handle_total by blast
  have first: "\<exists>s' rep. onMessage h sto message s = (s', [rep], True) \<and>
        (success rep \<and> error rep = None \<and> r_provider rep \<noteq> None \<and> r_translation rep \<noteq> None \<or>
         \<not> success rep \<and> error rep = Some failure_message \<and> r_provider rep = None \<and>
           r_translation rep = None)"
  proof (cases res)
    case (Inl e)
    with ty tr hd show ?thesis by (simp add: onMessage_def failure_reply_def)
  next
    case (Inr rep)
    with ty tr hd have "onMessage h sto message s = (s', [rep], True)"
      by (simp add: onMessage_def)
    moreover from handle_reply_shape hd Inr
    have "(\<exists>d. rep = failure_reply d) \<or> (\<exists>tr d. rep = success_reply tr d)" by blast
    ultimately show ?thesis by (auto simp: failure_reply_def success_reply_def)
  qed
  have second: "\<forall>s1 e. handleTranslateAndDefine h sto message s = Some (s1, Inl e) \<longrightarrow>
        onMessage h sto message s =
          (s1, [\<lparr>success = False, error = Some failure_message, r_provider = None,
                 r_translation = None, dict = None\<rparr>], True)"
    using ty tr by (simp add: onMessage_def failure_reply_def)
  from first second show
    "(\<exists>s' rep. onMessage h sto message s = (s', [rep], True) \<and>
        (success rep \<and> error rep = None \<and> r_provider rep \<noteq> None \<and> r_translation rep \<noteq> None \<or>
         \<not> success rep \<and> error rep = Some failure_message \<and> r_provider rep = None \<and>
           r_translation rep = None)) \<and>
     (\<forall>s1 e. handleTranslateAndDefine h sto message s = Some (s1, Inl e) \<longrightarrow>
        onMessage h sto message s =
          (s1, [\<lparr>success = False, error = Some failure_message, r_provider = None,
                 r_translation = None, dict = None\<rparr>], True))"
    by blast
qed

text \<open>
  A message with \<open>text: null\<close> and \<open>isWord: true\<close>: both providers are asked (the network
  is down), then \<open>text.toLowerCase()\<close> throws a TypeError, the promise rejects, and the
  listener sends the failure object.
\<close>

theorem listener_always_responds_witness:
  "opt_prop throwing_message (S ''type'') = JStr (S ''TRANSLATE_AND_DEFINE'') \<and>
   handleTranslateAndDefine host_down (stored_provider (S ''auto'')) throwing_message initial_state =
     Some (initial_state\<lparr>calls := [LibreReq JNull, MyMemoryReq (S ''null'')]\<rparr>, Inl TypeError) \<and>
   onMessage host_down (stored_provider (S ''auto'')) throwing_message initial_state =
     (initial_state\<lparr>calls := [LibreReq JNull, MyMemoryReq (S ''null'')]\<rparr>,
      [\<lparr>success = False, error = Some failure_message, r_provider = None,
        r_translation = None, dict = None\<rparr>], True)"
proof -
  have a: "opt_prop throwing_message (S ''type'') = JStr (S ''TRANSLATE_AND_DEFINE'')"
    by (simp add: throwing_message_def)
  have b: "handleTranslateAndDefine host_down (stored_provider (S ''auto'')) throwing_message
      initial_state =
     Some (initial_state\<lparr>calls := [LibreReq JNull, MyMemoryReq (S ''null'')]\<rparr>, Inl TypeError)"
    by (simp add: model_defs DEFAULT_SETTINGS_def host_down_def throwing_message_def)
  from a b show ?thesis
    using listener_always_responds[of throwing_message host_down "stored_provider (S ''auto'')"
        initial_state]
    by simp
qed

section \<open>Requests whose text is a string\<close>

lemma translate_loop_string:
  "translate_loop h (JStr t) order s le = (s', r) \<Longrightarrow> \<exists>tres le'. r = Inr (tres, le')"
proof (induction order arbitrary: s le)
  case Nil
  then show ?case by auto
next
  case (Cons p rest)
  from Cons.prems show ?case
  proof (cases rule: translate_loop_Cons_cases)
    case throw
    then show ?thesis by (simp add: js_ToString_def)
  next
    case (continue t' s1 r1 le')
    from Cons.IH[OF continue(5)] show ?thesis .
  qed simp_all
qed

text \<open>The five ways the dictionary block can go when the text is a string.\<close>

lemma dict_phase_cases:
  assumes "dict_phase h (JStr t) isWord s = (s', r)"
  obtains
    (skip) "\<not> truthy isWord" "s' = s" "r = Inr None"
  | (hit) d where "truthy isWord" "dictCache s (S ''DICT::'' @ toLowerCase h t) = Some d"
      "s' = s" "r = Inr (Some d)"
  | (uri) "truthy isWord" "dictCache s (S ''DICT::'' @ toLowerCase h t) = None"
      "encodeURIComponent h (toLowerCase h t) = None" "s' = s" "r = Inr None"
  | (failed) w where "truthy isWord" "dictCache s (S ''DICT::'' @ toLowerCase h t) = None"
      "encodeURIComponent h (toLowerCase h t) = Some w"
      "dict_failed (fetch h (length (calls s)) (DictReq w))"
      "s' = s\<lparr>calls := calls s @ [DictReq w]\<rparr>" "r = Inr None"
  | (found) w d where "truthy isWord" "dictCache s (S ''DICT::'' @ toLowerCase h t) = None"
      "encodeURIComponent h (toLowerCase h t) = Some w"
      "dict_result (fetch h (length (calls s)) (DictReq w)) = Inr (Some d)"
      "s' = s\<lparr>calls := calls s @ [DictReq w],
                dictCache := (dictCache s)(S ''DICT::'' @ toLowerCase h t \<mapsto> d)\<rparr>"
      "r = Inr (Some d)"
proof (cases "truthy isWord")
  case False
  show ?thesis by (rule skip) (use assms False in \<open>simp_all add: dict_phase_def\<close>)
next
  case True
  note w = this
  show ?thesis
  proof (cases "dictCache s (S ''DICT::'' @ toLowerCase h t)")
    case (Some d)
    show ?thesis by (rule hit[of d]) (use assms w Some in \<open>simp_all add: dict_phase_def\<close>)
  next
    case None
    note miss = this
    show ?thesis
    proof (cases "encodeURIComponent h (toLowerCase h t)")
      case None
      show ?thesis
        by (rule uri)
          (use assms w miss None in \<open>simp_all add: dict_phase_def fetchDictionary_def\<close>)
    next
      case (Some w')
      note enc = this
      let ?out = "fetch h (length (calls s)) (DictReq w')"
      have fd: "fetchDictionary h t s = (s\<lparr>calls := calls s @ [DictReq w']\<rparr>, dict_result ?out)"
        using enc by (simp add: fetchDictionary_def do_fetch_def)
      show ?thesis
      proof (cases "dict_failed ?out")
        case True
        show ?thesis
          by (rule failed[of w'])
            (use assms w miss enc fd True in
              \<open>auto simp: dict_phase_def dict_failed_def split: sum.splits option.splits\<close>)
      next
        case False
        then obtain d where d: "dict_result ?out = Inr (Some d)"
          by (auto simp: dict_failed_def split: sum.splits option.splits)
        show ?thesis
          by (rule found[of w' d]) (use assms w miss enc fd d in \<open>simp_all add: dict_phase_def\<close>)
      qed
    qed
  qed
qed

lemma dict_phase_string:
  "dict_phase h (JStr t) isWord s = (s', r) \<Longrightarrow> \<exists>d. r = Inr d"
  by (erule dict_phase_cases) simp_all

text \<open>What the handler does for a message whose text is a string.\<close>

lemma handle_string:
  assumes "opt_prop message (S ''text'') = JStr t"
  obtains st s1 tres le s2 d where
    "getUserSettings sto = Some st"
    "translate_loop h (JStr t) (getProvidersOrder (provider st)) s None = (s1, Inr (tres, le))"
    "dict_phase h (JStr t) (opt_prop message (S ''isWord'')) s1 = (s2, Inr d)"
    "handleTranslateAndDefine h sto message s =
       Some (s2, Inr (case tres of None \<Rightarrow> failure_reply d | Some tr \<Rightarrow> success_reply tr d))"
proof -
  from assms have nn: "\<not> nullish message" by (cases message) simp_all
  obtain st where st: "getUserSettings sto = Some st"
    using getUserSettings_total by blast
  obtain s1 lr where lp:
    "translate_loop h (JStr t) (getProvidersOrder (provider st)) s None = (s1, lr)"
    by (cases "translate_loop h (JStr t) (getProvidersOrder (provider st)) s None")
  from translate_loop_string[OF lp] obtain tres le where lr: "lr = Inr (tres, le)" by blast
  obtain s2 dr where dp:
    "dict_phase h (JStr t) (opt_prop message (S ''isWord'')) s1 = (s2, dr)"
    by (cases "dict_phase h (JStr t) (opt_prop message (S ''isWord'')) s1")
  from dict_phase_string[OF dp] obtain d where dr: "dr = Inr d" by blast
  show ?thesis
    by (rule that[of st s1 tres le s2 d])
      (use st lp lr dp dr handle_unfold[OF nn st, of h s s1 lr s2 dr] assms in simp_all)
qed

text \<open>
  A translation the loop yields was in the cache under a key of the order, or is the
  answer to a request the loop issued.
\<close>

lemma translate_loop_source:
  "translate_loop h text order s le = (s', Inr (Some res, le')) \<Longrightarrow>
     js_ToString h text = Some t \<Longrightarrow>
     (\<exists>p \<in> set order. translationCache s (p @ S ''::'' @ t) = Some res) \<or>
     (\<exists>n. length (calls s) \<le> n \<and> n < length (calls s') \<and>
           provider_answer h n (calls s' ! n) = Inr res)"
proof (induction order arbitrary: s le)
  case Nil
  then show ?case by simp
next
  case (Cons p rest)
  from Cons.prems(1) show ?case
  proof (cases rule: translate_loop_Cons_cases)
    case throw
    then show ?thesis by simp
  next
    case (hit t' cached)
    with Cons.prems(2) show ?thesis by simp
  next
    case (stored t' s1 res')
    from call_provider_success[OF stored(3)] obtain c where
      c: "calls s1 = calls s @ [c]" "provider_answer h (length (calls s)) c = Inr res'"
      by blast
    have "length (calls s) \<le> length (calls s) \<and> length (calls s) < length (calls s') \<and>
          provider_answer h (length (calls s)) (calls s' ! length (calls s)) = Inr res"
      using stored c by simp
    then show ?thesis by blast
  next
    case (continue t' s1 r1 le'')
    from call_provider_effect[OF continue(3)] obtain cs1 where
      e: "translationCache s1 = translationCache s" "calls s1 = calls s @ cs1"
      by blast
    from Cons.IH[OF continue(5) Cons.prems(2)] show ?thesis
    proof
      assume "\<exists>p \<in> set rest. translationCache s1 (p @ S ''::'' @ t) = Some res"
      with e show ?thesis by auto
    next
      assume "\<exists>n. length (calls s1) \<le> n \<and> n < length (calls s') \<and>
           provider_answer h n (calls s' ! n) = Inr res"
      then obtain n where "length (calls s1) \<le> n" "n < length (calls s')"
        "provider_answer h n (calls s' ! n) = Inr res" by blast
      with e have "length (calls s) \<le> n \<and> n < length (calls s') \<and>
           provider_answer h n (calls s' ! n) = Inr res" by simp
      then show ?thesis by blast
    qed
  qed
qed
section \<open>Success and the dictionary\<close>

text \<open>
  Claim C1. For a request whose text is a string the handler resolves with a result
  object. Its \<open>success\<close> is true exactly when the translation loop produced a result,
  whatever the dictionary block did; when the loop produced none, the object is the
  failure object with the fixed message, carrying as \<open>dict\<close> what the dictionary block
  found. The loop produces none whenever no provider of the order has the text cached and
  no request issued for this message gets a successful provider answer.
\<close>

theorem success_iff_translation:
  "opt_prop message (S ''text'') = JStr t \<longrightarrow>
     (\<exists>st s1 tres le s2 rep.
        getUserSettings sto = Some st \<and>
        translate_loop h (JStr t) (getProvidersOrder (provider st)) s None
          = (s1, Inr (tres, le)) \<and>
        dict_phase h (JStr t) (opt_prop message (S ''isWord'')) s1 = (s2, Inr (dict rep)) \<and>
        handleTranslateAndDefine h sto message s = Some (s2, Inr rep) \<and>
        (success rep \<longleftrightarrow> tres \<noteq> None) \<and>
        (tres = None \<longrightarrow>
           rep = \<lparr>success = False, error = Some failure_message, r_provider = None,
                  r_translation = None, dict = dict rep\<rparr>) \<and>
        ((\<forall>p \<in> set (getProvidersOrder (provider st)).
             translationCache s (p @ S ''::'' @ t) = None) \<and>
         (\<forall>n. length (calls s) \<le> n \<and> n < length (calls s2) \<longrightarrow>
              (\<forall>r. provider_answer h n (calls s2 ! n) \<noteq> Inr r)) \<longrightarrow>
           tres = None))"
proof
  assume "opt_prop message (S ''text'') = JStr t"
  then obtain st s1 tres le s2 d where
    st: "getUserSettings sto = Some st"
    and lp: "translate_loop h (JStr t) (getProvidersOrder (provider st)) s None
               = (s1, Inr (tres, le))"
    and dp: "dict_phase h (JStr t) (opt_prop message (S ''isWord'')) s1 = (s2, Inr d)"
    and hd: "handleTranslateAndDefine h sto message s =
       Some (s2, Inr (case tres of None \<Rightarrow> failure_reply d | Some tr \<Rightarrow> success_reply tr d))"
    by (rule handle_string)
  let ?rep = "case tres of None \<Rightarrow> failure_reply d | Some tr \<Rightarrow> success_reply tr d"
  have dict: "dict ?rep = d"
    by (simp add: failure_reply_def success_reply_def split: option.splits)
  have succ: "success ?rep \<longleftrightarrow> tres \<noteq> None"
    by (simp add: failure_reply_def success_reply_def split: option.splits)
  have fail: "tres = None \<longrightarrow>
      ?rep = \<lparr>success = False, error = Some failure_message, r_provider = None,
               r_translation = None, dict = dict ?rep\<rparr>"
    by (simp add: failure_reply_def)
  have allfail: "tres = None"
    if nc: "\<forall>p \<in> set (getProvidersOrder (provider st)).
              translationCache s (p @ S ''::'' @ t) = None"
      and na: "\<forall>n. length (calls s) \<le> n \<and> n < length (calls s2) \<longrightarrow>
                 (\<forall>r. provider_answer h n (calls s2 ! n) \<noteq> Inr r)"
  proof (rule ccontr)
    assume "tres \<noteq> None"
    then obtain res where res: "tres = Some res" by blast
    from dict_phase_effect[OF dp] obtain cs2 where cs2: "calls s2 = calls s1 @ cs2" by blast
    from translate_loop_source[OF lp[unfolded res], of t]
    consider (cached) "\<exists>p \<in> set (getProvidersOrder (provider st)).
                         translationCache s (p @ S ''::'' @ t) = Some res"
      | (answered) n where "length (calls s) \<le> n" "n < length (calls s1)"
          "provider_answer h n (calls s1 ! n) = Inr res"
      by (auto simp: js_ToString_def)
    then show False
    proof cases
      case cached
      with nc show False by auto
    next
      case answered
      with cs2 have "length (calls s) \<le> n \<and> n < length (calls s2)"
        and "provider_answer h n (calls s2 ! n) = Inr res"
        by (simp_all add: nth_append)
      with na show False by blast
    qed
  qed
  show "\<exists>st s1 tres le s2 rep.
        getUserSettings sto = Some st \<and>
        translate_loop h (JStr t) (getProvidersOrder (provider st)) s None
          = (s1, Inr (tres, le)) \<and>
        dict_phase h (JStr t) (opt_prop message (S ''isWord'')) s1 = (s2, Inr (dict rep)) \<and>
        handleTranslateAndDefine h sto message s = Some (s2, Inr rep) \<and>
        (success rep \<longleftrightarrow> tres \<noteq> None) \<and>
        (tres = None \<longrightarrow>
           rep = \<lparr>success = False, error = Some failure_message, r_provider = None,
                  r_translation = None, dict = dict rep\<rparr>) \<and>
        ((\<forall>p \<in> set (getProvidersOrder (provider st)).
             translationCache s (p @ S ''::'' @ t) = None) \<and>
         (\<forall>n. length (calls s) \<le> n \<and> n < length (calls s2) \<longrightarrow>
              (\<forall>r. provider_answer h n (calls s2 ! n) \<noteq> Inr r)) \<longrightarrow>
           tres = None)"
    apply (rule exI[of _ st], rule exI[of _ s1], rule exI[of _ tres], rule exI[of _ le],
        rule exI[of _ s2], rule exI[of _ ?rep])
    using st lp dp hd dict succ fail allfail by simp
qed

text \<open>
  Both providers answer 500 and the dictionary knows the word: the request for \<open>"Test"\<close>
  as a word fails with the fixed message, and still carries the dictionary entry, which
  is cached.
\<close>

theorem success_iff_translation_witness:
  "opt_prop (request_for (S ''Test'') True) (S ''text'') = JStr (S ''Test'') \<and>
   handleTranslateAndDefine host_dict_only (stored_provider (S ''auto''))
       (request_for (S ''Test'') True) initial_state =
     Some (\<lparr>translationCache = Map.empty,
            dictCache = [S ''DICT::test'' \<mapsto>
                           \<lparr>ipa = Some (S ''/test/''), audio = Some (S ''a.mp3'')\<rparr>],
            calls = [LibreReq (JStr (S ''Test'')), MyMemoryReq (S ''Test''),
                     DictReq (S ''test'')]\<rparr>,
           Inr \<lparr>success = False, error = Some failure_message, r_provider = None,
                r_translation = None,
                dict = Some \<lparr>ipa = Some (S ''/test/''), audio = Some (S ''a.mp3'')\<rparr>\<rparr>) \<and>
   (\<exists>st s1 tres le s2 rep.
        getUserSettings (stored_provider (S ''auto'')) = Some st \<and>
        translate_loop host_dict_only (JStr (S ''Test'')) (getProvidersOrder (provider st))
            initial_state None = (s1, Inr (tres, le)) \<and>
        handleTranslateAndDefine host_dict_only (stored_provider (S ''auto''))
            (request_for (S ''Test'') True) initial_state = Some (s2, Inr rep) \<and>
        success rep = (tres \<noteq> None))"
proof -
  have a: "opt_prop (request_for (S ''Test'') True) (S ''text'') = JStr (S ''Test'')"
    by (simp add: request_for_def)
  have b: "handleTranslateAndDefine host_dict_only (stored_provider (S ''auto''))
       (request_for (S ''Test'') True) initial_state =
     Some (\<lparr>translationCache = Map.empty,
            dictCache = [S ''DICT::test'' \<mapsto>
                           \<lparr>ipa = Some (S ''/test/''), audio = Some (S ''a.mp3'')\<rparr>],
            calls = [LibreReq (JStr (S ''Test'')), MyMemoryReq (S ''Test''),
                     DictReq (S ''test'')]\<rparr>,
           Inr \<lparr>success = False, error = Some failure_message, r_provider = None,
                r_translation = None,
                dict = Some \<lparr>ipa = Some (S ''/test/''), audio = Some (S ''a.mp3'')\<rparr>\<rparr>)"
    by (simp add: model_defs DEFAULT_SETTINGS_def host_dict_only_def dict_answer_def
        ascii_lower_def trim_def isWhiteSpace_def)
  from success_iff_translation[of "request_for (S ''Test'') True" "S ''Test''"
      "stored_provider (S ''auto'')" host_dict_only initial_state] a
  have "\<exists>st s1 tres le s2 rep.
        getUserSettings (stored_provider (S ''auto'')) = Some st \<and>
        translate_loop host_dict_only (JStr (S ''Test'')) (getProvidersOrder (provider st))
            initial_state None = (s1, Inr (tres, le)) \<and>
        handleTranslateAndDefine host_dict_only (stored_provider (S ''auto''))
            (request_for (S ''Test'') True) initial_state = Some (s2, Inr rep) \<and>
        success rep = (tres \<noteq> None)"
    by blast
  with a b show ?thesis by blast
qed
lemma dict_failed_rejected: "dict_failed FetchRejected"
  by (simp add: dict_failed_def dict_result_def)

lemma dict_failed_status: "\<not> ok r \<Longrightarrow> dict_failed (FetchResponse r)"
  by (simp add: dict_failed_def dict_result_def)

lemma dict_failed_not_json: "body r = None \<Longrightarrow> dict_failed (FetchResponse r)"
  by (simp add: dict_failed_def dict_result_def)

lemma dict_failed_format:
  "body r = Some data \<Longrightarrow> (\<forall>e es. data \<noteq> JArr (e # es)) \<Longrightarrow> dict_failed (FetchResponse r)"
  by (cases data) (simp_all add: dict_failed_def dict_result_def split: list.splits)

lemma dict_failed_no_phonetics:
  "body r = Some (JArr (e # es)) \<Longrightarrow> parse_entry e = None \<Longrightarrow> dict_failed (FetchResponse r)"
  by (simp add: dict_failed_def dict_result_def)

text \<open>
  Claim C7. Take a request whose text is a string. If \<open>isWord\<close> is truthy and every
  dictionary request issued for it fails (the fetch is rejected, the status is not 2xx,
  the body is not JSON or not a non-empty array, or the first entry has neither a
  transcription nor an audio link), the handler still resolves with a result object:
  \<open>dict\<close> is what the dictionary cache held for the word before (\<open>null\<close> on a miss), the
  dictionary cache is left as it was, and \<open>success\<close> is true exactly when the translation
  loop produced a result. If \<open>isWord\<close> is falsy, no dictionary request is issued, \<open>dict\<close>
  is \<open>null\<close> and the dictionary cache is left as it was.
\<close>

theorem dictionary_failure_is_not_fatal:
  "(opt_prop message (S ''text'') = JStr t \<and> truthy (opt_prop message (S ''isWord'')) \<and>
    handleTranslateAndDefine h sto message s = Some (s', res) \<and>
    (\<forall>n w. length (calls s) \<le> n \<and> n < length (calls s') \<and> calls s' ! n = DictReq w \<longrightarrow>
       dict_failed (fetch h n (DictReq w))) \<longrightarrow>
      (\<exists>rep st s1 tres le.
         res = Inr rep \<and> dict rep = dictCache s (S ''DICT::'' @ toLowerCase h t) \<and>
         dictCache s' = dictCache s \<and> getUserSettings sto = Some st \<and>
         translate_loop h (JStr t) (getProvidersOrder (provider st)) s None
           = (s1, Inr (tres, le)) \<and>
         (success rep \<longleftrightarrow> tres \<noteq> None))) \<and>
   (opt_prop message (S ''text'') = JStr t \<and> \<not> truthy (opt_prop message (S ''isWord'')) \<and>
    handleTranslateAndDefine h sto message s = Some (s', res) \<longrightarrow>
      (\<exists>rep. res = Inr rep \<and> dict rep = None \<and> dictCache s' = dictCache s \<and>
         (\<forall>c \<in> set (new_calls s s'). req_key c \<noteq> S ''DICT''))) \<and>
   dict_failed FetchRejected \<and>
   (\<not> ok r \<longrightarrow> dict_failed (FetchResponse r)) \<and>
   (body r = None \<longrightarrow> dict_failed (FetchResponse r)) \<and>
   (body r = Some data \<and> (\<forall>e es. data \<noteq> JArr (e # es)) \<longrightarrow> dict_failed (FetchResponse r)) \<and>
   (body r = Some (JArr (e # es)) \<and> parse_entry e = None \<longrightarrow> dict_failed (FetchResponse r))"
proof -
  have word: "\<exists>rep st s1 tres le.
         res = Inr rep \<and> dict rep = dictCache s (S ''DICT::'' @ toLowerCase h t) \<and>
         dictCache s' = dictCache s \<and> getUserSettings sto = Some st \<and>
         translate_loop h (JStr t) (getProvidersOrder (provider st)) s None
           = (s1, Inr (tres, le)) \<and>
         (success rep \<longleftrightarrow> tres \<noteq> None)"
    if tx: "opt_prop message (S ''text'') = JStr t"
      and w: "truthy (opt_prop message (S ''isWord''))"
      and hd: "handleTranslateAndDefine h sto message s = Some (s', res)"
      and df: "\<forall>n w. length (calls s) \<le> n \<and> n < length (calls s') \<and> calls s' ! n = DictReq w \<longrightarrow>
                 dict_failed (fetch h n (DictReq w))"
  proof -
    from tx obtain st s1 tres le s2 d where
      st: "getUserSettings sto = Some st"
      and lp: "translate_loop h (JStr t) (getProvidersOrder (provider st)) s None
                 = (s1, Inr (tres, le))"
      and dp: "dict_phase h (JStr t) (opt_prop message (S ''isWord'')) s1 = (s2, Inr d)"
      and hs: "handleTranslateAndDefine h sto message s =
         Some (s2, Inr (case tres of None \<Rightarrow> failure_reply d | Some tr \<Rightarrow> success_reply tr d))"
      by (rule handle_string)
    let ?rep = "case tres of None \<Rightarrow> failure_reply d | Some tr \<Rightarrow> success_reply tr d"
    from hd hs have eq: "s' = s2" "res = Inr ?rep" by simp_all
    from translate_loop_effect[OF lp] obtain cs1 where
      l: "dictCache s1 = dictCache s" "calls s1 = calls s @ cs1" by blast
    have "d = dictCache s1 (S ''DICT::'' @ toLowerCase h t) \<and> dictCache s2 = dictCache s1"
      using dp
    proof (cases rule: dict_phase_cases)
      case (found w' d')
      have "length (calls s) \<le> length (calls s1) \<and> length (calls s1) < length (calls s2) \<and>
            calls s2 ! length (calls s1) = DictReq w'"
        using found l by simp
      with df eq have "dict_failed (fetch h (length (calls s1)) (DictReq w'))" by blast
      with found show ?thesis by (simp add: dict_failed_def)
    qed (use w in simp_all)
    with l have "dict ?rep = dictCache s (S ''DICT::'' @ toLowerCase h t)"
      and "dictCache s2 = dictCache s"
      by (simp_all add: failure_reply_def success_reply_def split: option.splits)
    moreover have "success ?rep \<longleftrightarrow> tres \<noteq> None"
      by (simp add: failure_reply_def success_reply_def split: option.splits)
    ultimately show ?thesis using eq st lp by blast
  qed
  have noword: "\<exists>rep. res = Inr rep \<and> dict rep = None \<and> dictCache s' = dictCache s \<and>
         (\<forall>c \<in> set (new_calls s s'). req_key c \<noteq> S ''DICT'')"
    if tx: "opt_prop message (S ''text'') = JStr t"
      and w: "\<not> truthy (opt_prop message (S ''isWord''))"
      and hd: "handleTranslateAndDefine h sto message s = Some (s', res)"
  proof -
    from tx obtain st s1 tres le s2 d where
      st: "getUserSettings sto = Some st"
      and lp: "translate_loop h (JStr t) (getProvidersOrder (provider st)) s None
                 = (s1, Inr (tres, le))"
      and dp: "dict_phase h (JStr t) (opt_prop message (S ''isWord'')) s1 = (s2, Inr d)"
      and hs: "handleTranslateAndDefine h sto message s =
         Some (s2, Inr (case tres of None \<Rightarrow> failure_reply d | Some tr \<Rightarrow> success_reply tr d))"
      by (rule handle_string)
    let ?rep = "case tres of None \<Rightarrow> failure_reply d | Some tr \<Rightarrow> success_reply tr d"
    from hd hs have eq: "s' = s2" "res = Inr ?rep" by simp_all
    from dp w have same: "s2 = s1" "d = None" by (simp_all add: dict_phase_def)
    from translate_loop_effect[OF lp] obtain cs1 where
      l: "dictCache s1 = dictCache s" "calls s1 = calls s @ cs1"
        "\<forall>p. count_list (map req_key cs1) p \<le> count_list (getProvidersOrder (provider st)) p"
      by blast
    have "count_list (map req_key cs1) (S ''DICT'') = 0"
      using l(3)[rule_format, of "S ''DICT''"] by (simp add: getProvidersOrder_def)
    then have "\<forall>c \<in> set cs1. req_key c \<noteq> S ''DICT''"
      by (metis count_list_0_iff image_eqI list.set_map)
    moreover have "new_calls s s' = cs1" using eq same l by (simp add: new_calls_def)
    moreover have "dict ?rep = None"
      using same by (simp add: failure_reply_def success_reply_def split: option.splits)
    ultimately show ?thesis using eq same l by auto
  qed
  have kinds: "dict_failed FetchRejected \<and>
   (\<not> ok r \<longrightarrow> dict_failed (FetchResponse r)) \<and>
   (body r = None \<longrightarrow> dict_failed (FetchResponse r)) \<and>
   (body r = Some data \<and> (\<forall>e es. data \<noteq> JArr (e # es)) \<longrightarrow> dict_failed (FetchResponse r)) \<and>
   (body r = Some (JArr (e # es)) \<and> parse_entry e = None \<longrightarrow> dict_failed (FetchResponse r))"
    using dict_failed_rejected dict_failed_status[of r] dict_failed_not_json[of r]
      dict_failed_format[of r data] dict_failed_no_phonetics[of r e es]
    by blast
  from word noword kinds show ?thesis by (intro conjI impI) blast+
qed

text \<open>
  LibreTranslate translates \<open>"hello"\<close> and the dictionary answers 404: asked as a word,
  the request succeeds with \<open>dict\<close> \<open>null\<close> and an empty dictionary cache; asked without
  \<open>isWord\<close>, the dictionary is not contacted.
\<close>

theorem dictionary_failure_is_not_fatal_witness:
  "handleTranslateAndDefine host_no_dict (stored_provider (S ''auto''))
       (request_for (S ''hello'') True) initial_state =
     Some (\<lparr>translationCache = [S ''libre::hello'' \<mapsto>
                \<lparr>tr_translation = JStr [0x4F60, 0x597D], tr_provider = S ''LibreTranslate''\<rparr>],
            dictCache = Map.empty,
            calls = [LibreReq (JStr (S ''hello'')), DictReq (S ''hello'')]\<rparr>,
           Inr \<lparr>success = True, error = None, r_provider = Some (S ''LibreTranslate''),
                r_translation = Some (JStr [0x4F60, 0x597D]), dict = None\<rparr>) \<and>
   dict_failed (fetch host_no_dict 1 (DictReq (S ''hello''))) \<and>
   handleTranslateAndDefine host_no_dict (stored_provider (S ''auto''))
       (request_for (S ''hello'') False) initial_state =
     Some (\<lparr>translationCache = [S ''libre::hello'' \<mapsto>
                \<lparr>tr_translation = JStr [0x4F60, 0x597D], tr_provider = S ''LibreTranslate''\<rparr>],
            dictCache = Map.empty,
            calls = [LibreReq (JStr (S ''hello''))]\<rparr>,
           Inr \<lparr>success = True, error = None, r_provider = Some (S ''LibreTranslate''),
                r_translation = Some (JStr [0x4F60, 0x597D]), dict = None\<rparr>) \<and>
   (\<exists>rep. (Inr \<lparr>success = True, error = None, r_provider = Some (S ''LibreTranslate''),
                r_translation = Some (JStr [0x4F60, 0x597D]), dict = None\<rparr> :: exn + reply)
              = Inr rep \<and>
      dict rep = dictCache initial_state (S ''DICT::'' @ toLowerCase host_no_dict (S ''hello'')))"
proof -
  let ?s1 = "\<lparr>translationCache = [S ''libre::hello'' \<mapsto>
                \<lparr>tr_translation = JStr [0x4F60, 0x597D], tr_provider = S ''LibreTranslate''\<rparr>],
            dictCache = Map.empty,
            calls = [LibreReq (JStr (S ''hello'')), DictReq (S ''hello'')]\<rparr>"
  let ?r = "Inr \<lparr>success = True, error = None, r_provider = Some (S ''LibreTranslate''),
                r_translation = Some (JStr [0x4F60, 0x597D]), dict = None\<rparr> :: exn + reply"
  have a: "handleTranslateAndDefine host_no_dict (stored_provider (S ''auto''))
       (request_for (S ''hello'') True) initial_state = Some (?s1, ?r)"
    by (simp add: model_defs DEFAULT_SETTINGS_def host_no_dict_def ascii_lower_def)
  have b: "handleTranslateAndDefine host_no_dict (stored_provider (S ''auto''))
       (request_for (S ''hello'') False) initial_state =
     Some (\<lparr>translationCache = [S ''libre::hello'' \<mapsto>
                \<lparr>tr_translation = JStr [0x4F60, 0x597D], tr_provider = S ''LibreTranslate''\<rparr>],
            dictCache = Map.empty,
            calls = [LibreReq (JStr (S ''hello''))]\<rparr>, ?r)"
    by (simp add: model_defs DEFAULT_SETTINGS_def host_no_dict_def ascii_lower_def)
  have f: "dict_failed (fetch host_no_dict n (DictReq w))" for n w
    by (simp add: dict_failed_def dict_result_def host_no_dict_def ok_def)
  have t: "opt_prop (request_for (S ''hello'') True) (S ''text'') = JStr (S ''hello'')"
    "truthy (opt_prop (request_for (S ''hello'') True) (S ''isWord''))"
    by (simp_all add: request_for_def)
  have hyp: "opt_prop (request_for (S ''hello'') True) (S ''text'') = JStr (S ''hello'') \<and>
      truthy (opt_prop (request_for (S ''hello'') True) (S ''isWord'')) \<and>
      handleTranslateAndDefine host_no_dict (stored_provider (S ''auto''))
        (request_for (S ''hello'') True) initial_state = Some (?s1, ?r) \<and>
      (\<forall>n w. length (calls initial_state) \<le> n \<and> n < length (calls ?s1) \<and>
          calls ?s1 ! n = DictReq w \<longrightarrow> dict_failed (fetch host_no_dict n (DictReq w)))"
    by (intro conjI allI impI t a f)
  from dictionary_failure_is_not_fatal[of "request_for (S ''hello'') True" "S ''hello''"
      host_no_dict "stored_provider (S ''auto'')" initial_state ?s1 ?r,
      THEN conjunct1, THEN mp, OF hyp]
  have c: "\<exists>rep. ?r = Inr rep \<and>
      dict rep = dictCache initial_state (S ''DICT::'' @ toLowerCase host_no_dict (S ''hello''))"
    by blast
  show ?thesis by (intro conjI a b c f)
qed

section \<open>The requests of one traversal\<close>

lemma call_provider_request:
  assumes "call_provider h p text s = (s1, r1)"
  shows "calls s1 = calls s @ (case provider_request h p text of None \<Rightarrow> [] | Some c \<Rightarrow> [c])"
  using assms
  by (auto simp: call_provider_def translateWithLibre_eq translateWithMyMemory_def do_fetch_def
        Let_def provider_request_def
      split: if_splits sum.splits option.splits prod.splits)

lemma attempts_Cons:
  "attempts h text (p # rest) =
     (case provider_request h p text of None \<Rightarrow> [] | Some c \<Rightarrow> [c]) @ attempts h text rest"
  by (simp add: attempts_def List.map_filter_simps split: option.splits)


text \<open>A traversal issues an initial segment of the requests of the order.\<close>

lemma translate_loop_prefix:
  "translate_loop h text order s le = (s', r) \<Longrightarrow>
     \<exists>cs. calls s' = calls s @ cs \<and> prefix cs (attempts h text order)"
proof (induction order arbitrary: s le)
  case Nil
  then show ?case by simp
next
  case (Cons p rest)
  from Cons.prems show ?case
  proof (cases rule: translate_loop_Cons_cases)
    case throw
    then show ?thesis by simp
  next
    case (hit t cached)
    then show ?thesis by simp
  next
    case (stored t s1 res)
    from call_provider_request[OF stored(3)] stored show ?thesis
      by (simp add: attempts_Cons)
  next
    case (continue t s1 r1 le')
    from Cons.IH[OF continue(5)] obtain cs2 where
      "calls s' = calls s1 @ cs2" "prefix cs2 (attempts h text rest)" by blast
    with call_provider_request[OF continue(3)] show ?thesis
      by (simp add: attempts_Cons)
  qed
qed


section \<open>What the translation cache holds\<close>

lemma provider_answer_name:
  assumes "provider_answer h n c = Inr r"
  shows "tr_provider r = provider_name (req_key c) \<and> truthy (tr_translation r)"
proof (cases c)
  case (LibreReq q)
  with assms show ?thesis
    by (auto simp: provider_answer_def libre_result_def provider_name_def Let_def
        split: fetch_outcome.splits if_splits option.splits sum.splits)
next
  case (MyMemoryReq q)
  with assms show ?thesis
    by (auto simp: provider_answer_def mymemory_result_def provider_name_def Let_def
        split: fetch_outcome.splits if_splits option.splits sum.splits)
next
  case (DictReq w)
  with assms show ?thesis by (simp add: provider_answer_def)
qed

lemma cache_inv_initial: "cache_inv h initial_state"
  by (simp add: cache_inv_def initial_state_def)

lemma cache_inv_extend:
  assumes "cache_inv h s" "translationCache s' = translationCache s" "calls s' = calls s @ cs"
  shows "cache_inv h s'"
  unfolding cache_inv_def
proof (intro allI impI)
  fix k r
  assume "translationCache s' k = Some r"
  with assms(2) have "translationCache s k = Some r" by simp
  from assms(1)[unfolded cache_inv_def, rule_format, OF this] obtain n t where
    n: "truthy (tr_translation r)" "n < length (calls s)"
      "provider_answer h n (calls s ! n) = Inr r" "k = req_key (calls s ! n) @ S ''::'' @ t"
    by blast
  from n(2) assms(3) have "calls s' ! n = calls s ! n" "n < length (calls s')"
    by (simp_all add: nth_append)
  with n show "truthy (tr_translation r) \<and>
      (\<exists>n<length (calls s'). provider_answer h n (calls s' ! n) = Inr r \<and>
         (\<exists>t. k = req_key (calls s' ! n) @ S ''::'' @ t))"
    by auto
qed

lemma cache_inv_store:
  assumes "cache_inv h s1" "n < length (calls s1)" "provider_answer h n (calls s1 ! n) = Inr res"
    and "req_key (calls s1 ! n) = p"
  shows "cache_inv h (s1\<lparr>translationCache := (translationCache s1)(p @ S ''::'' @ t \<mapsto> res)\<rparr>)"
  unfolding cache_inv_def
proof (intro allI impI)
  fix k r
  let ?s' = "s1\<lparr>translationCache := (translationCache s1)(p @ S ''::'' @ t \<mapsto> res)\<rparr>"
  assume a: "translationCache ?s' k = Some r"
  show "truthy (tr_translation r) \<and>
      (\<exists>n<length (calls ?s'). provider_answer h n (calls ?s' ! n) = Inr r \<and>
         (\<exists>t. k = req_key (calls ?s' ! n) @ S ''::'' @ t))"
  proof (cases "k = p @ S ''::'' @ t")
    case True
    with a have "r = res" by simp
    with assms(2,3,4) True provider_answer_name[OF assms(3)] show ?thesis by auto
  next
    case False
    with a have "translationCache s1 k = Some r" by simp
    from assms(1)[unfolded cache_inv_def, rule_format, OF this] show ?thesis by simp
  qed
qed

lemma translate_loop_inv:
  "translate_loop h text order s le = (s', r) \<Longrightarrow> cache_inv h s \<Longrightarrow> cache_inv h s'"
proof (induction order arbitrary: s le)
  case Nil
  then show ?case by simp
next
  case (Cons p rest)
  from Cons.prems(1) show ?case
  proof (cases rule: translate_loop_Cons_cases)
    case throw
    with Cons.prems(2) show ?thesis by simp
  next
    case (hit t cached)
    with Cons.prems(2) show ?thesis by simp
  next
    case (stored t s1 res)
    from call_provider_effect[OF stored(3)] obtain cs where
      e: "translationCache s1 = translationCache s" "calls s1 = calls s @ cs" by blast
    from call_provider_success[OF stored(3)] obtain c where
      c: "calls s1 = calls s @ [c]" "req_key c = p"
        "provider_answer h (length (calls s)) c = Inr res"
      by blast
    have "cache_inv h s1" using cache_inv_extend[OF Cons.prems(2) e] .
    moreover have "length (calls s) < length (calls s1)"
      "calls s1 ! length (calls s) = c" using c(1) by simp_all
    ultimately show ?thesis
      using cache_inv_store[of h s1 "length (calls s)" res p t] c stored(5) by simp
  next
    case (continue t s1 r1 le')
    from call_provider_effect[OF continue(3)] obtain cs where
      e: "translationCache s1 = translationCache s" "calls s1 = calls s @ cs" by blast
    from Cons.IH[OF continue(5) cache_inv_extend[OF Cons.prems(2) e]] show ?thesis .
  qed
qed

lemma handle_inv:
  assumes "handleTranslateAndDefine h sto message s = Some (s', res)" "cache_inv h s"
  shows "cache_inv h s'"
proof (cases "nullish message")
  case True
  with assms show ?thesis by (simp add: handle_nullish)
next
  case False
  obtain st where st: "getUserSettings sto = Some st"
    using getUserSettings_total by blast
  let ?text = "opt_prop message (S ''text'')"
  obtain s1 lr where lp:
    "translate_loop h ?text (getProvidersOrder (provider st)) s None = (s1, lr)"
    by (cases "translate_loop h ?text (getProvidersOrder (provider st)) s None")
  obtain s2 dr where dp:
    "dict_phase h ?text (opt_prop message (S ''isWord'')) s1 = (s2, dr)"
    by (cases "dict_phase h ?text (opt_prop message (S ''isWord'')) s1")
  have i1: "cache_inv h s1" using translate_loop_inv[OF lp assms(2)] .
  from dict_phase_effect[OF dp] obtain cs2 where
    "translationCache s2 = translationCache s1" "calls s2 = calls s1 @ cs2" by blast
  then have i2: "cache_inv h s2" using cache_inv_extend[OF i1] by blast
  have "s' = s1 \<or> s' = s2"
    using assms(1) handle_unfold[OF False st lp dp]
    by (auto split: sum.splits prod.splits)
  with i1 i2 show ?thesis by blast
qed

lemma reachable_inv: "reachable h s \<Longrightarrow> cache_inv h s"
proof (induction rule: reachable.induct)
  case start
  show ?case by (rule cache_inv_initial)
next
  case (message s sto msg s' responses async)
  from message.hyps(2) have
    "s' = s \<or> (\<exists>res. handleTranslateAndDefine h sto msg s = Some (s', res))"
    by (auto simp: onMessage_def split: if_splits option.splits sum.splits prod.splits)
  with message.IH handle_inv show ?case by blast
qed

text \<open>
  The condition on the failed request is needed: under the preference \<open>"mymemory"\<close>, a
  text with a lone surrogate makes \<open>encodeURIComponent\<close> throw before any \<open>fetch\<close>, so the
  request fails without a request to the network, and so does its retry.
\<close>

lemma retry_without_network:
  "handleTranslateAndDefine host_uri_error (stored_provider (S ''mymemory''))
       (request_for (S ''abc'' @ [0xD800]) False) initial_state =
     Some (initial_state, Inr (failure_reply None))"
  by (simp add: model_defs DEFAULT_SETTINGS_def host_uri_error_def)


section \<open>One traversal of the order\<close>

lemma order_cases:
  "getProvidersOrder v = [S ''libre''] \<or> getProvidersOrder v = [S ''mymemory''] \<or>
   getProvidersOrder v = [S ''libre'', S ''mymemory'']"
  by (simp add: getProvidersOrder_def)

lemma order_distinct: "distinct (getProvidersOrder v)"
  using order_cases[of v] by auto

lemma order_keys: "p \<in> set (getProvidersOrder v) \<Longrightarrow> p = S ''libre'' \<or> p = S ''mymemory''"
  using order_cases[of v] by auto

lemma order_count: "count_list (getProvidersOrder v @ [S ''DICT'']) p \<le> 1"
  using order_cases[of v] by auto

text \<open>The requests of one run of the handler: those of the loop, then at most one to the dictionary.\<close>

lemma handle_calls:
  assumes "handleTranslateAndDefine h sto message s = Some (s', res)"
    and "getUserSettings sto = Some st"
  shows "\<exists>cs ds. calls s' = calls s @ cs @ ds \<and>
           prefix cs (attempts h (opt_prop message (S ''text'')) (getProvidersOrder (provider st))) \<and>
           (\<forall>c \<in> set ds. req_key c = S ''DICT'')"
proof (cases "nullish message")
  case True
  with assms have "calls s' = calls s @ [] @ []" by (simp add: handle_nullish)
  then show ?thesis by (metis Nil_prefix empty_iff empty_set)
next
  case False
  let ?text = "opt_prop message (S ''text'')"
  obtain s1 lr where lp:
    "translate_loop h ?text (getProvidersOrder (provider st)) s None = (s1, lr)"
    by (cases "translate_loop h ?text (getProvidersOrder (provider st)) s None")
  obtain s2 dr where dp:
    "dict_phase h ?text (opt_prop message (S ''isWord'')) s1 = (s2, dr)"
    by (cases "dict_phase h ?text (opt_prop message (S ''isWord'')) s1")
  from translate_loop_prefix[OF lp] obtain cs where
    a: "calls s1 = calls s @ cs" "prefix cs (attempts h ?text (getProvidersOrder (provider st)))"
    by blast
  from dict_phase_effect[OF dp] obtain ds where
    b: "calls s2 = calls s1 @ ds" "\<forall>c \<in> set ds. req_key c = S ''DICT''"
    by blast
  have "s' = s1 \<or> s' = s2"
    using assms(1) handle_unfold[OF False assms(2) lp dp]
    by (auto split: sum.splits prod.splits)
  then show ?thesis
  proof
    assume "s' = s1"
    with a have "calls s' = calls s @ cs @ []" by simp
    with a(2) show ?thesis by (metis empty_iff empty_set)
  next
    assume "s' = s2"
    with a b have "calls s' = calls s @ cs @ ds" by simp
    with a(2) b(2) show ?thesis by blast
  qed
qed

lemma cached_provider_name:
  assumes "cache_inv h s" "translationCache s (p @ S ''::'' @ t) = Some r"
    and "p = S ''libre'' \<or> p = S ''mymemory''"
  shows "tr_provider r = provider_name p"
proof -
  from assms(1)[unfolded cache_inv_def, rule_format, OF assms(2)] obtain n u where
    n: "provider_answer h n (calls s ! n) = Inr r"
      "p @ S ''::'' @ t = req_key (calls s ! n) @ S ''::'' @ u"
    by blast
  have "req_key (calls s ! n) = p"
  proof (cases "calls s ! n")
    case (LibreReq q)
    with n(2) assms(3) show ?thesis by auto
  next
    case (MyMemoryReq q)
    with n(2) assms(3) show ?thesis by auto
  next
    case (DictReq w)
    with n(1) show ?thesis by (simp add: provider_answer_def)
  qed
  with provider_answer_name[OF n(1)] show ?thesis by simp
qed

text \<open>When the first provider of the order succeeds, the loop ends with it.\<close>

lemma translate_loop_primary:
  assumes "translate_loop h (JStr t) (p # rest) s le = (s1, lr)"
    and "translationCache s (p @ S ''::'' @ t) \<noteq> None \<or>
         (\<exists>sx r. call_provider h p (JStr t) s = (sx, Inr (Some r)) \<and> truthy (tr_translation r))"
    and "cache_inv h s" and "p = S ''libre'' \<or> p = S ''mymemory''"
  shows "\<exists>r cs. lr = Inr (Some r, le) \<and> tr_provider r = provider_name p \<and>
           calls s1 = calls s @ cs \<and> (\<forall>c \<in> set cs. req_key c = p)"
  using assms(1)
proof (cases rule: translate_loop_Cons_cases)
  case throw
  then show ?thesis by (simp add: js_ToString_def)
next
  case (hit t' cached)
  then have "t' = t" by (simp add: js_ToString_def)
  with hit cached_provider_name[OF assms(3) _ assms(4), of t cached] show ?thesis by simp
next
  case (stored t' s' res)
  from call_provider_success[OF stored(3)] obtain c where
    c: "calls s' = calls s @ [c]" "req_key c = p"
      "provider_answer h (length (calls s)) c = Inr res"
    by blast
  with provider_answer_name[OF c(3)] stored show ?thesis by simp
next
  case (continue t' s' r1 le')
  then have "t' = t" by (simp add: js_ToString_def)
  with continue assms(2) show ?thesis by auto
qed
text \<open>
  Claim C4. One run of the handler goes through the order once, in order: the requests
  it issues are an initial segment of the requests of the order (one per provider at
  most), followed by at most the dictionary's, so no provider and no dictionary is asked
  twice. And when the first provider of the order succeeds, from the cache or over the
  network, for a text that is a string, the result is a success carrying that provider's
  name, and no request goes to a later provider of the order.
\<close>

theorem single_traversal:
  "(getUserSettings sto = Some st \<and> handleTranslateAndDefine h sto message s = Some (s', res) \<longrightarrow>
      (\<forall>q. count_list (map req_key (new_calls s s')) q \<le> 1) \<and>
      (\<exists>cs ds. new_calls s s' = cs @ ds \<and>
         prefix cs (attempts h (opt_prop message (S ''text'')) (getProvidersOrder (provider st))) \<and>
         (\<forall>c \<in> set ds. req_key c = S ''DICT''))) \<and>
   (reachable h s \<and> opt_prop message (S ''text'') = JStr t \<and> getUserSettings sto = Some st \<and>
    getProvidersOrder (provider st) = p # rest \<and>
    handleTranslateAndDefine h sto message s = Some (s', res) \<and>
    (translationCache s (p @ S ''::'' @ t) \<noteq> None \<or>
     (\<exists>sx r. call_provider h p (JStr t) s = (sx, Inr (Some r)) \<and> truthy (tr_translation r))) \<longrightarrow>
      (\<exists>rep. res = Inr rep \<and> success rep \<and> r_provider rep = Some (provider_name p) \<and>
         (\<forall>c \<in> set (new_calls s s'). \<forall>q \<in> set rest. req_key c \<noteq> q)))"
proof -
  have once: "(\<forall>q. count_list (map req_key (new_calls s s')) q \<le> 1) \<and>
      (\<exists>cs ds. new_calls s s' = cs @ ds \<and>
         prefix cs (attempts h (opt_prop message (S ''text'')) (getProvidersOrder (provider st))) \<and>
         (\<forall>c \<in> set ds. req_key c = S ''DICT''))"
    if pre: "getUserSettings sto = Some st \<and>
      handleTranslateAndDefine h sto message s = Some (s', res)"
  proof -
    from pre have st: "getUserSettings sto = Some st"
      and hd: "handleTranslateAndDefine h sto message s = Some (s', res)" by simp_all
    from handle_effect[OF hd st] obtain cs0 where
      e: "calls s' = calls s @ cs0"
        "\<forall>q. count_list (map req_key cs0) q
               \<le> count_list (getProvidersOrder (provider st) @ [S ''DICT'']) q"
      by blast
    have "count_list (map req_key cs0) q \<le> 1" for q
      using e(2)[rule_format, of q] order_count[of "provider st" q] by (rule order_trans)
    with e(1) have a: "\<forall>q. count_list (map req_key (new_calls s s')) q \<le> 1"
      by (simp add: new_calls_def)
    from handle_calls[OF hd st] obtain cs ds where
      "calls s' = calls s @ cs @ ds"
      "prefix cs (attempts h (opt_prop message (S ''text'')) (getProvidersOrder (provider st)))"
      "\<forall>c \<in> set ds. req_key c = S ''DICT''"
      by blast
    then have "new_calls s s' = cs @ ds \<and>
         prefix cs (attempts h (opt_prop message (S ''text'')) (getProvidersOrder (provider st))) \<and>
         (\<forall>c \<in> set ds. req_key c = S ''DICT'')"
      by (simp add: new_calls_def)
    with a show ?thesis by blast
  qed
  have primary: "\<exists>rep. res = Inr rep \<and> success rep \<and> r_provider rep = Some (provider_name p) \<and>
         (\<forall>c \<in> set (new_calls s s'). \<forall>q \<in> set rest. req_key c \<noteq> q)"
    if pre: "reachable h s \<and> opt_prop message (S ''text'') = JStr t \<and>
      getUserSettings sto = Some st \<and> getProvidersOrder (provider st) = p # rest \<and>
      handleTranslateAndDefine h sto message s = Some (s', res) \<and>
      (translationCache s (p @ S ''::'' @ t) \<noteq> None \<or>
       (\<exists>sx r. call_provider h p (JStr t) s = (sx, Inr (Some r)) \<and> truthy (tr_translation r)))"
  proof -
    from pre have re: "reachable h s" and tx: "opt_prop message (S ''text'') = JStr t"
      and st: "getUserSettings sto = Some st"
      and ord: "getProvidersOrder (provider st) = p # rest"
      and hd: "handleTranslateAndDefine h sto message s = Some (s', res)"
      and ok: "translationCache s (p @ S ''::'' @ t) \<noteq> None \<or>
       (\<exists>sx r. call_provider h p (JStr t) s = (sx, Inr (Some r)) \<and> truthy (tr_translation r))"
      by simp_all
    from tx obtain st0 s1 tres le s2 d where
      st0: "getUserSettings sto = Some st0"
      and lp: "translate_loop h (JStr t) (getProvidersOrder (provider st0)) s None
                 = (s1, Inr (tres, le))"
      and dp: "dict_phase h (JStr t) (opt_prop message (S ''isWord'')) s1 = (s2, Inr d)"
      and hs: "handleTranslateAndDefine h sto message s =
         Some (s2, Inr (case tres of None \<Rightarrow> failure_reply d | Some tr \<Rightarrow> success_reply tr d))"
      by (rule handle_string)
    from st st0 have [simp]: "st0 = st" by simp
    have pk: "p = S ''libre'' \<or> p = S ''mymemory''"
      using order_keys[of p "provider st"] ord by simp
    from translate_loop_primary[OF lp[simplified, unfolded ord] ok reachable_inv[OF re] pk]
    obtain r cs where
      r: "tres = Some r" "tr_provider r = provider_name p" "calls s1 = calls s @ cs"
        "\<forall>c \<in> set cs. req_key c = p"
      by auto
    from dict_phase_effect[OF dp] obtain ds where
      ds: "calls s2 = calls s1 @ ds" "\<forall>c \<in> set ds. req_key c = S ''DICT''" by blast
    from hd hs r(1) have eq: "s' = s2" "res = Inr (success_reply r d)" by simp_all
    have nq: "q \<noteq> p \<and> q \<noteq> S ''DICT''" if "q \<in> set rest" for q
      using that order_distinct[of "provider st"] order_keys[of q "provider st"] ord by auto
    have "new_calls s s' = cs @ ds" using eq r(3) ds(1) by (simp add: new_calls_def)
    with r(4) ds(2) nq have "\<forall>c \<in> set (new_calls s s'). \<forall>q \<in> set rest. req_key c \<noteq> q"
      by auto
    with eq r(2) show ?thesis by (simp add: success_reply_def)
  qed
  show ?thesis by (rule conjI[OF impI[OF once] impI[OF primary]])
qed

text \<open>
  LibreTranslate answers the request for \<open>"hello"\<close>: one request is issued, the result
  names LibreTranslate, and MyMemory is not asked.
\<close>

theorem single_traversal_witness:
  "reachable host_no_dict initial_state \<and>
   getProvidersOrder (provider (DEFAULT_SETTINGS\<lparr>provider := JStr (S ''auto'')\<rparr>)) =
     [S ''libre'', S ''mymemory''] \<and>
   call_provider host_no_dict (S ''libre'') (JStr (S ''hello'')) initial_state =
     (initial_state\<lparr>calls := [LibreReq (JStr (S ''hello''))]\<rparr>,
      Inr (Some \<lparr>tr_translation = JStr [0x4F60, 0x597D], tr_provider = S ''LibreTranslate''\<rparr>)) \<and>
   handleTranslateAndDefine host_no_dict (stored_provider (S ''auto''))
       (request_for (S ''hello'') False) initial_state =
     Some (\<lparr>translationCache = [S ''libre::hello'' \<mapsto>
                \<lparr>tr_translation = JStr [0x4F60, 0x597D], tr_provider = S ''LibreTranslate''\<rparr>],
            dictCache = Map.empty, calls = [LibreReq (JStr (S ''hello''))]\<rparr>,
           Inr \<lparr>success = True, error = None, r_provider = Some (S ''LibreTranslate''),
                r_translation = Some (JStr [0x4F60, 0x597D]), dict = None\<rparr>) \<and>
   (\<exists>rep. (Inr \<lparr>success = True, error = None, r_provider = Some (S ''LibreTranslate''),
                r_translation = Some (JStr [0x4F60, 0x597D]), dict = None\<rparr> :: exn + reply)
            = Inr rep \<and> success rep \<and> r_provider rep = Some (provider_name (S ''libre'')))"
proof -
  let ?st = "DEFAULT_SETTINGS\<lparr>provider := JStr (S ''auto'')\<rparr>"
  let ?sto = "stored_provider (S ''auto'')"
  let ?msg = "request_for (S ''hello'') False"
  let ?r = "\<lparr>tr_translation = JStr [0x4F60, 0x597D], tr_provider = S ''LibreTranslate''\<rparr>"
  let ?s' = "\<lparr>translationCache = [S ''libre::hello'' \<mapsto> ?r],
            dictCache = Map.empty, calls = [LibreReq (JStr (S ''hello''))]\<rparr>"
  let ?res = "Inr \<lparr>success = True, error = None, r_provider = Some (S ''LibreTranslate''),
                r_translation = Some (JStr [0x4F60, 0x597D]), dict = None\<rparr> :: exn + reply"
  have re: "reachable host_no_dict initial_state" by (rule reachable.start)
  have tx: "opt_prop ?msg (S ''text'') = JStr (S ''hello'')" by (simp add: request_for_def)
  have st: "getUserSettings ?sto = Some ?st" by (simp add: model_defs DEFAULT_SETTINGS_def)
  have ord: "getProvidersOrder (provider ?st) = [S ''libre'', S ''mymemory'']"
    by (simp add: getProvidersOrder_def)
  have cp: "call_provider host_no_dict (S ''libre'') (JStr (S ''hello'')) initial_state =
     (initial_state\<lparr>calls := [LibreReq (JStr (S ''hello''))]\<rparr>, Inr (Some ?r))"
    by (simp add: model_defs host_no_dict_def)
  have hd: "handleTranslateAndDefine host_no_dict ?sto ?msg initial_state = Some (?s', ?res)"
    by (simp add: model_defs DEFAULT_SETTINGS_def host_no_dict_def)
  have ok: "translationCache initial_state (S ''libre'' @ S ''::'' @ S ''hello'') \<noteq> None \<or>
     (\<exists>sx r. call_provider host_no_dict (S ''libre'') (JStr (S ''hello'')) initial_state
                = (sx, Inr (Some r)) \<and> truthy (tr_translation r))"
    using cp by simp
  from single_traversal[where h = host_no_dict and s = initial_state and message = ?msg
      and t = "S ''hello''" and sto = ?sto and st = ?st and p = "S ''libre''"
      and rest = "[S ''mymemory'']" and s' = ?s' and res = ?res,
      THEN conjunct2, THEN mp,
      OF conjI[OF re conjI[OF tx conjI[OF st conjI[OF ord conjI[OF hd ok]]]]]]
  have c: "\<exists>rep. ?res = Inr rep \<and> success rep \<and>
      r_provider rep = Some (provider_name (S ''libre''))"
    by blast
  show ?thesis by (intro conjI re ord cp hd c)
qed

section \<open>The cache and repeated requests\<close>








end
